theory Spec2Isabelle
  imports Complex_Main "HOL-Library.Word" "HOL-Library.Signed_Division"
begin

unbundle bit_operations_syntax

section \<open>Go values used by the ticket processor\<close>

type_synonym byte = "8 word"
type_synonym int32 = "32 word"
type_synonym int64 = "64 word"
type_synonym uint64 = "64 word"

text \<open>
  \<open>time.Duration\<close> is an \<open>int64\<close> count of nanoseconds; arithmetic on it wraps.
\<close>

type_synonym Duration = "64 word"

definition Millisecond :: Duration where
  "Millisecond = 1000000"

definition Second :: Duration where
  "Second = 1000000000"

text \<open>
  Go's \<open>error\<close> interface, as the concrete errors the modelled paths can produce:
  sarama's \<open>ConfigurationError\<close>, the \<open>*json.MarshalerError\<close> and decoding errors of
  \<open>encoding/json\<close>, and the errors a broker round trip ends with.
\<close>

datatype error =
    ConfigurationError string
  | MarshalerError string
  | UnmarshalError string
  | BrokerError string

text \<open>A run-time panic aborts the goroutine; a call either panics or returns.\<close>

datatype panic =
    NilPointerDereference
  | NegativeWaitGroupCounter
  | CloseOfClosedChannel

datatype 'a outcome = Panic panic | Return 'a

subsection \<open>strconv.FormatInt\<close>

text \<open>
  \<open>strconv.FormatInt(i, base)\<close> for \<open>2 \<le> base \<le> 36\<close>: a minus sign for a negative
  \<open>i\<close>, then the digits of the magnitude \<open>uint64(-i)\<close>, most significant first.
  \<open>SendTicket\<close> is the only caller and passes base 10. (Go panics on any other base;
  the test \<open>base < 2\<close> only makes the recursion total.)
\<close>

definition digits :: string where
  "digits = ''0123456789abcdefghijklmnopqrstuvwxyz''"

fun formatBits :: "nat \<Rightarrow> nat \<Rightarrow> string" where
  "formatBits u base =
     (if base < 2 \<or> u < base then [digits ! u]
      else formatBits (u div base) base @ [digits ! (u mod base)])"

declare formatBits.simps [simp del]

definition FormatInt :: "int64 \<Rightarrow> nat \<Rightarrow> string" where
  "FormatInt i base =
     (if sint i < 0 then CHR ''-'' # formatBits (unat (- i)) base
      else formatBits (unat i) base)"

subsection \<open>time.Time\<close>

text \<open>
  A \<open>time.Time\<close> is an instant (whole seconds since January 1 of year 1, 00:00:00 UTC,
  and nanoseconds within the second) shown in a zone \<open>zoneOffset\<close> seconds east of UTC.
  The monotonic clock reading a \<open>time.Now()\<close> value also carries is left out.
\<close>

record Time =
  sec :: int
  nsec :: int
  zoneOffset :: int

text \<open>
  \<open>t.Sub(u)\<close>: the difference in nanoseconds, saturated at the largest and smallest
  \<open>Duration\<close>. \<open>time.Since(u)\<close> is \<open>time.Now().Sub(u)\<close>.
\<close>

definition Sub :: "Time \<Rightarrow> Time \<Rightarrow> Duration" where
  "Sub t u =
     (let d = (sec t - sec u) * 1000000000 + (nsec t - nsec u)
      in if d > 9223372036854775807 then word_of_int 9223372036854775807
         else if d < - 9223372036854775808 then word_of_int (- 9223372036854775808)
         else word_of_int d)"

text \<open>
  \<open>t.Year()\<close>: the proleptic Gregorian year of the instant in its zone. The day count
  since January 1 of year 1 is cut into cycles of 400, 100, 4 and 1 years as
  \<open>time.absDate\<close> does (Go shifts to an unsigned count first; the shift is a multiple of
  400 years, so rounding the quotient down gives the same year).
\<close>

definition Year :: "Time \<Rightarrow> int" where
  "Year t =
     (let d = (sec t + zoneOffset t) div 86400;
          n400 = d div 146097;
          d1 = d - 146097 * n400;
          n100 = (let n = d1 div 36524 in n - n div 4);
          d2 = d1 - 36524 * n100;
          n4 = d2 div 1461;
          d3 = d2 - 1461 * n4;
          n1 = (let n = d3 div 365 in n - n div 4)
      in 1 + 400 * n400 + 100 * n100 + 4 * n4 + n1)"

section \<open>internal/models: Ticket\<close>

text \<open>
  The struct the producer and the handler import from \<open>internal/models\<close>, as the
  repository's README gives it: \<open>ID string\<close>, \<open>Timestamp time.Time\<close>, \<open>OrderID int64\<close>,
  \<open>Data string\<close>.
\<close>

record Ticket =
  ID :: string
  Timestamp :: Time
  OrderID :: int64
  Data :: string

section \<open>The sarama structures the producer and the consumers touch\<close>

record ProducerMessage =
  pm_Topic :: string
  pm_Key :: string
  pm_Value :: "byte list"
  pm_Timestamp :: Time

record ConsumerMessage =
  cm_Topic :: string
  cm_Partition :: int32
  cm_Offset :: int64
  cm_Key :: string
  cm_Value :: "byte list"

datatype RequiredAcks = NoResponse | WaitForLocal | WaitForAll

datatype PartitionerConstructor = NewHashPartitioner | NewRandomPartitioner | NewRoundRobinPartitioner

text \<open>
  The fields of \<open>sarama.Config\<close> that \<open>NewProducer\<close> sets or that the validation of an
  idempotent producer reads, the nested structs written with underscores
  (\<open>config.Producer.Retry.Max\<close> is \<open>Producer_Retry_Max\<close>); \<open>Version\<close> is the four-part
  Kafka version.
\<close>

record Config =
  Net_MaxOpenRequests :: int
  Version :: "nat \<times> nat \<times> nat \<times> nat"
  Producer_RequiredAcks :: RequiredAcks
  Producer_Retry_Max :: int
  Producer_Retry_Backoff :: Duration
  Producer_Return_Successes :: bool
  Producer_Return_Errors :: bool
  Producer_Idempotent :: bool
  Producer_Partitioner :: PartitionerConstructor

text \<open>
  \<open>sarama.NewConfig()\<close>: the library's defaults for those fields (five requests in
  flight per connection, acknowledgment by the leader only, three retries 100ms apart,
  errors returned, successes not, idempotence off, hash partitioner). The default
  version is 2.1.0.0; releases that still default to 1.0.0.0 differ in nothing that
  follows, since both are at least 0.11.0.0.
\<close>

definition NewConfig :: Config where
  "NewConfig =
     \<lparr>Net_MaxOpenRequests = 5,
      Version = (2, 1, 0, 0),
      Producer_RequiredAcks = WaitForLocal,
      Producer_Retry_Max = 3,
      Producer_Retry_Backoff = 100 * Millisecond,
      Producer_Return_Successes = False,
      Producer_Return_Errors = True,
      Producer_Idempotent = False,
      Producer_Partitioner = NewHashPartitioner\<rparr>"

section \<open>internal/metrics\<close>

text \<open>
  A collector is known by the options it was built with (the buckets of the histogram
  are left out). \<open>Metrics\<close> holds the five collectors; calls on them are recorded, in
  program order, as events.
\<close>

record Opts =
  Namespace :: string
  Name :: string
  Help :: string

record Metrics =
  MessagesProduced :: Opts
  MessagesConsumed :: Opts
  ProcessingDuration :: Opts
  ErrorsCount :: Opts
  ConsumerLag :: Opts

definition NewMetrics :: "string \<Rightarrow> Metrics" where
  "NewMetrics namespace =
     \<lparr>MessagesProduced =
        \<lparr>Namespace = namespace, Name = ''messages_produced_total'',
         Help = ''The total number of produced messages''\<rparr>,
      MessagesConsumed =
        \<lparr>Namespace = namespace, Name = ''messages_consumed_total'',
         Help = ''The total number of consumed messages''\<rparr>,
      ProcessingDuration =
        \<lparr>Namespace = namespace, Name = ''message_processing_duration_seconds'',
         Help = ''Message processing duration in seconds''\<rparr>,
      ErrorsCount =
        \<lparr>Namespace = namespace, Name = ''errors_total'',
         Help = ''The total number of errors''\<rparr>,
      ConsumerLag =
        \<lparr>Namespace = namespace, Name = ''consumer_lag'',
         Help = ''The current consumer lag''\<rparr>\<rparr>"

text \<open>
  The calls the producer and the consumers make on their collaborators. A histogram
  observation and a gauge value are the \<open>Duration\<close> whose \<open>Seconds()\<close> the code passes.
\<close>

datatype event =
    Counter_Inc Opts
  | Histogram_Observe Opts Duration
  | Gauge_Set Opts Duration
  | Session_MarkMessage ConsumerMessage string
  | Log_Printf string int32 int64

definition counter_value :: "Opts \<Rightarrow> event list \<Rightarrow> nat" where
  "counter_value c tr = length (filter (\<lambda>e. e = Counter_Inc c) tr)"

section \<open>internal/kafka/producer.go\<close>

text \<open>
  \<open>metrics\<close> is a pointer, \<open>None\<close> when nil. \<open>producer\<close> is the \<open>sarama.SyncProducer\<close>:
  the state of the client and of the cluster behind it, of a type \<open>'c\<close> left open.
\<close>

record 'c Producer =
  producer :: 'c
  topic :: string
  metrics :: "Metrics option"

text \<open>
  \<open>NewProducer\<close> builds the configuration and hands it to \<open>sarama.NewSyncProducer\<close>,
  given as the parameter \<open>NewSyncProducer\<close>. The struct literal it returns names
  \<open>producer\<close> and \<open>topic\<close> only, so \<open>metrics\<close> keeps its zero value, nil.
\<close>

definition producerConfig :: Config where
  "producerConfig =
     NewConfig
       \<lparr>Producer_RequiredAcks := WaitForAll,
        Producer_Retry_Max := 5,
        Producer_Return_Successes := True,
        Producer_Idempotent := True,
        Producer_Partitioner := NewHashPartitioner\<rparr>"

definition NewProducer ::
  "(string list \<Rightarrow> Config \<Rightarrow> error + 'c) \<Rightarrow> string list \<Rightarrow> string \<Rightarrow> error + 'c Producer" where
  "NewProducer NewSyncProducer brokers topic' =
     (case NewSyncProducer brokers producerConfig of
        Inl err \<Rightarrow> Inl err
      | Inr producer' \<Rightarrow> Inr \<lparr>producer = producer', topic = topic', metrics = None\<rparr>)"

text \<open>
  \<open>SendTicket\<close>. \<open>Marshal\<close> stands for \<open>json.Marshal\<close> on a ticket and \<open>SendMessage\<close>
  for the synchronous send of the client, which returns the partition and offset or an
  error and leaves the client in a new state. The result is the returned error
  (\<open>None\<close> for nil) or a panic, the producer afterwards and the metric calls made.
\<close>

definition ticketMessage :: "'c Producer \<Rightarrow> Ticket \<Rightarrow> byte list \<Rightarrow> ProducerMessage" where
  "ticketMessage p ticket data =
     \<lparr>pm_Topic = topic p,
      pm_Key = FormatInt (OrderID ticket) 10,
      pm_Value = data,
      pm_Timestamp = Timestamp ticket\<rparr>"

definition SendTicket ::
  "(Ticket \<Rightarrow> error + byte list) \<Rightarrow>
   ('c \<Rightarrow> ProducerMessage \<Rightarrow> (error + int32 \<times> int64) \<times> 'c) \<Rightarrow>
   'c Producer \<Rightarrow> Ticket \<Rightarrow> error option outcome \<times> 'c Producer \<times> event list" where
  "SendTicket Marshal SendMessage p ticket =
     (case Marshal ticket of
        Inl err \<Rightarrow> (Return (Some err), p, [])
      | Inr data \<Rightarrow>
          (case SendMessage (producer p) (ticketMessage p ticket data) of
             (Inl err, c) \<Rightarrow>
               (case metrics p of
                  None \<Rightarrow> (Panic NilPointerDereference, p\<lparr>producer := c\<rparr>, [])
                | Some m \<Rightarrow>
                    (Return (Some err), p\<lparr>producer := c\<rparr>, [Counter_Inc (ErrorsCount m)]))
           | (Inr po, c) \<Rightarrow>
               (case metrics p of
                  None \<Rightarrow> (Panic NilPointerDereference, p\<lparr>producer := c\<rparr>, [])
                | Some m \<Rightarrow>
                    (Return None, p\<lparr>producer := c\<rparr>, [Counter_Inc (MessagesProduced m)]))))"

section \<open>internal/kafka/retry.go\<close>

record RetryConfig =
  MaxRetries :: uint64
  InitialInterval :: Duration
  MaxInterval :: Duration
  Multiplier :: real

definition NewRetryConfig :: RetryConfig where
  "NewRetryConfig =
     \<lparr>MaxRetries = 5,
      InitialInterval = 100 * Millisecond,
      MaxInterval = 2 * Second,
      Multiplier = 2\<rparr>"

text \<open>
  \<open>backoff.ExponentialBackOff\<close> with the defaults of \<open>backoff.NewExponentialBackOff()\<close>
  (500ms, randomization 0.5, multiplier 1.5, at most 60s between tries, 15 minutes in
  all). The \<open>float64\<close> fields are only copied, so they are kept as reals.
\<close>

record ExponentialBackOff =
  bo_InitialInterval :: Duration
  bo_RandomizationFactor :: real
  bo_Multiplier :: real
  bo_MaxInterval :: Duration
  bo_MaxElapsedTime :: Duration

definition NewExponentialBackOff :: ExponentialBackOff where
  "NewExponentialBackOff =
     \<lparr>bo_InitialInterval = 500 * Millisecond,
      bo_RandomizationFactor = 1 / 2,
      bo_Multiplier = 3 / 2,
      bo_MaxInterval = 60 * Second,
      bo_MaxElapsedTime = 15 * 60 * Second\<rparr>"

text \<open>
  \<open>time.Duration(rc.MaxRetries)\<close> reinterprets the \<open>uint64\<close> as an \<open>int64\<close>; the product
  wraps.
\<close>

definition CreateBackOff :: "RetryConfig \<Rightarrow> ExponentialBackOff" where
  "CreateBackOff rc =
     NewExponentialBackOff
       \<lparr>bo_InitialInterval := InitialInterval rc,
        bo_MaxInterval := MaxInterval rc,
        bo_Multiplier := Multiplier rc,
        bo_MaxElapsedTime := MaxRetries rc * MaxInterval rc\<rparr>"

section \<open>What the client library does with the producer's configuration\<close>

text \<open>
  \<open>KafkaVersion.IsAtLeast\<close> compares the four parts from the left.
\<close>

definition IsAtLeast :: "nat \<times> nat \<times> nat \<times> nat \<Rightarrow> nat \<times> nat \<times> nat \<times> nat \<Rightarrow> bool" where
  "IsAtLeast v other =
     (case (v, other) of
        ((a, b, c, d), (a', b', c', d')) \<Rightarrow>
          if a > a' then True else if a < a' then False
          else if b > b' then True else if b < b' then False
          else if c > c' then True else if c < c' then False
          else if d > d' then True else if d < d' then False
          else True)"

text \<open>
  \<open>verifyProducerConfig\<close> of sarama's \<open>sync_producer.go\<close>, and the part of
  \<open>Config.Validate\<close> that reads the producer fields \<open>NewProducer\<close> sets: the
  requirements of an idempotent producer. Every other check of \<open>Validate\<close> passes on
  the defaults of \<open>NewConfig\<close>.
\<close>

definition verifyProducerConfig :: "Config \<Rightarrow> error option" where
  "verifyProducerConfig config =
     (if \<not> Producer_Return_Errors config then
        Some (ConfigurationError
          ''Producer.Return.Errors must be true to be used in a SyncProducer'')
      else if \<not> Producer_Return_Successes config then
        Some (ConfigurationError
          ''Producer.Return.Successes must be true to be used in a SyncProducer'')
      else None)"

definition Validate :: "Config \<Rightarrow> error option" where
  "Validate c =
     (if Producer_Idempotent c then
        if \<not> IsAtLeast (Version c) (0, 11, 0, 0) then
          Some (ConfigurationError ''Idempotent producer requires Version >= V0_11_0_0'')
        else if Producer_Retry_Max c = 0 then
          Some (ConfigurationError ''Idempotent producer requires Producer.Retry.Max >= 1'')
        else if Producer_RequiredAcks c \<noteq> WaitForAll then
          Some (ConfigurationError
            ''Idempotent producer requires Producer.RequiredAcks to be WaitForAll'')
        else if Net_MaxOpenRequests c > 1 then
          Some (ConfigurationError
            ''Idempotent producer requires Net.MaxOpenRequests to be 1'')
        else None
      else None)"

text \<open>
  \<open>sarama.NewSyncProducer\<close>: the configuration is verified and validated before any
  broker is contacted; \<open>dial\<close> stands for everything after that (connecting to the
  brokers and starting the producer).
\<close>

definition sarama_NewSyncProducer ::
  "(string list \<Rightarrow> Config \<Rightarrow> error + 'c) \<Rightarrow> string list \<Rightarrow> Config \<Rightarrow> error + 'c" where
  "sarama_NewSyncProducer dial addrs config =
     (case verifyProducerConfig config of
        Some err \<Rightarrow> Inl err
      | None \<Rightarrow>
          (case Validate config of
             Some err \<Rightarrow> Inl err
           | None \<Rightarrow>
               if addrs = [] then
                 Inl (ConfigurationError ''You must provide at least one broker address'')
               else dial addrs config))"

section \<open>What encoding/json does with a Ticket\<close>

text \<open>
  \<open>json.Marshal\<close> cannot fail on the string and integer fields of a ticket. For the
  \<open>Timestamp\<close> it calls \<open>Time.MarshalJSON\<close>, which refuses a time that is not an RFC
  3339 timestamp: a year outside 0..9999, or a zone offset of 24 hours or more. The
  error comes back wrapped in a \<open>*json.MarshalerError\<close>. \<open>encode\<close> stands for the bytes of
  the encoding when there is one.
\<close>

definition strictRFC3339_error :: "Time \<Rightarrow> string option" where
  "strictRFC3339_error t =
     (if Year t < 0 \<or> Year t > 9999 then Some ''year outside of range [0,9999]''
      else if zoneOffset t \<noteq> 0 \<and> (\<bar>zoneOffset t\<bar> div 60) div 60 \<ge> 24 then
        Some ''timezone hour outside of range [0,23]''
      else None)"

definition json_Marshal :: "(Ticket \<Rightarrow> byte list) \<Rightarrow> Ticket \<Rightarrow> error + byte list" where
  "json_Marshal encode ticket =
     (case strictRFC3339_error (Timestamp ticket) of
        Some msg \<Rightarrow> Inl (MarshalerError (''Time.MarshalJSON: '' @ msg))
      | None \<Rightarrow> Inr (encode ticket))"

section \<open>The hash partitioner and the partition logs\<close>

text \<open>
  \<open>sarama.NewHashPartitioner\<close> hashes the key bytes with 32-bit FNV-1a and takes
  \<open>int32(hash) % numPartitions\<close> (Go's remainder, which has the sign of the dividend),
  negated when negative.
\<close>

definition fnv1a :: "byte list \<Rightarrow> 32 word" where
  "fnv1a bs = foldl (\<lambda>h b. (h XOR ucast b) * 16777619) 2166136261 bs"

definition hashPartition :: "string \<Rightarrow> nat \<Rightarrow> nat" where
  "hashPartition key numPartitions =
     (let partition = sint (fnv1a (map of_char key)) smod int numPartitions
      in nat (if partition < 0 then - partition else partition))"

text \<open>
  The cluster as the producer sees it: one append-only log per partition of the topic.
  A send that succeeds appends the message to the log the partitioner selects and
  returns the partition and the offset of the new entry. For a topic without a
  writable partition the client reports \<open>ErrLeaderNotAvailable\<close>.
\<close>

record Broker =
  partitions :: "ProducerMessage list list"

definition Broker_SendMessage ::
  "Broker \<Rightarrow> ProducerMessage \<Rightarrow> (error + int32 \<times> int64) \<times> Broker" where
  "Broker_SendMessage b msg =
     (if partitions b = [] then (Inl (BrokerError ''ErrLeaderNotAvailable''), b)
      else
        let k = hashPartition (pm_Key msg) (length (partitions b));
            entries = partitions b ! k
        in (Inr (word_of_nat k, word_of_nat (length entries)),
            b\<lparr>partitions := (partitions b)[k := entries @ [msg]]\<rparr>))"

text \<open>
  What a claim on partition \<open>k\<close> delivers: the entries of the log in order, each with
  its index as offset.
\<close>

definition claimMessages :: "nat \<Rightarrow> ProducerMessage list \<Rightarrow> ConsumerMessage list" where
  "claimMessages k entries =
     map (\<lambda>(i, msg).
           \<lparr>cm_Topic = pm_Topic msg, cm_Partition = word_of_nat k,
            cm_Offset = word_of_nat i, cm_Key = pm_Key msg, cm_Value = pm_Value msg\<rparr>)
         (enumerate 0 entries)"

section \<open>The consumer group handler of internal/kafka\<close>

text \<open>
  \<open>Handler\<close> holds a channel, a pointer to the metrics (\<open>None\<close> when nil) and a pointer
  to a WaitGroup; the channel and the WaitGroup are references, given as numbers.
\<close>

record Handler =
  h_ready :: nat
  h_metrics :: "Metrics option"
  h_wg :: nat

definition NewHandler :: "Metrics option \<Rightarrow> nat \<Rightarrow> nat \<Rightarrow> Handler" where
  "NewHandler metrics' wg' fresh = \<lparr>h_ready = fresh, h_metrics = metrics', h_wg = wg'\<rparr>"

text \<open>
  The state a claim loop works on: how often the wall clock has been read, and the calls
  made so far. \<open>clock n\<close> is what the \<open>n\<close>-th reading of \<open>time.Now()\<close> returns.
\<close>

record cstate =
  reads :: nat
  trace :: "event list"

text \<open>
  \<open>Handler.ConsumeClaim\<close>: the loop over \<open>claim.Messages()\<close>, the messages the channel
  delivers until it is closed. \<open>Unmarshal\<close> stands for \<open>json.Unmarshal\<close> into a
  \<open>Ticket\<close>. Each iteration reads the clock for \<open>startTime\<close>; a message that does not
  decode counts an error and the loop goes on with the next one; otherwise the clock is
  read twice more, by the two calls of \<open>time.Since\<close>.
\<close>

fun ConsumeClaim ::
  "(byte list \<Rightarrow> error + Ticket) \<Rightarrow> (nat \<Rightarrow> Time) \<Rightarrow> Handler \<Rightarrow>
   ConsumerMessage list \<Rightarrow> cstate \<Rightarrow> error option outcome \<times> cstate" where
  "ConsumeClaim Unmarshal clock h [] s = (Return None, s)"
| "ConsumeClaim Unmarshal clock h (message # rest) s =
     (let startTime = clock (reads s);
          s1 = s\<lparr>reads := reads s + 1\<rparr>
      in case Unmarshal (cm_Value message) of
           Inl err \<Rightarrow>
             (case h_metrics h of
                None \<Rightarrow> (Panic NilPointerDereference, s1)
              | Some m \<Rightarrow>
                  ConsumeClaim Unmarshal clock h rest
                    (s1\<lparr>trace := trace s1 @ [Counter_Inc (ErrorsCount m)]\<rparr>))
         | Inr ticket \<Rightarrow>
             (case h_metrics h of
                None \<Rightarrow> (Panic NilPointerDereference, s1)
              | Some m \<Rightarrow>
                  let elapsed = Sub (clock (reads s1)) startTime;
                      lag = Sub (clock (reads s1 + 1)) (Timestamp ticket)
                  in ConsumeClaim Unmarshal clock h rest
                       (s1\<lparr>reads := reads s1 + 2,
                           trace := trace s1 @
                             [Counter_Inc (MessagesConsumed m),
                              Histogram_Observe (ProcessingDuration m) elapsed,
                              Gauge_Set (ConsumerLag m) lag,
                              Session_MarkMessage message '''']\<rparr>)))"

text \<open>
  \<open>session.MarkMessage(msg, metadata)\<close> marks offset \<open>msg.Offset + 1\<close> for the topic and
  partition of the message, and a marked offset only moves forward. \<open>markedOffset\<close> is
  the marked offset of one partition after the calls of a trace, from where it stood.
\<close>

fun markedOffset :: "string \<Rightarrow> int32 \<Rightarrow> int64 \<Rightarrow> event list \<Rightarrow> int64" where
  "markedOffset tp pt cur [] = cur"
| "markedOffset tp pt cur (Session_MarkMessage msg md # evs) =
     (if cm_Topic msg = tp \<and> cm_Partition msg = pt \<and> sint (cm_Offset msg + 1) > sint cur
      then markedOffset tp pt (cm_Offset msg + 1) evs
      else markedOffset tp pt cur evs)"
| "markedOffset tp pt cur (e # evs) = markedOffset tp pt cur evs"

text \<open>The messages marked by a trace, in the order of the calls.\<close>

fun marked :: "event list \<Rightarrow> ConsumerMessage list" where
  "marked [] = []"
| "marked (Session_MarkMessage msg md # evs) = msg # marked evs"
| "marked (e # evs) = marked evs"

section \<open>cmd/consumer/main.go\<close>

text \<open>
  \<open>ConsumerHandler.ConsumeClaim\<close> logs each message of the claim and marks it.
\<close>

fun ConsumerHandler_ConsumeClaim ::
  "ConsumerMessage list \<Rightarrow> event list \<Rightarrow> error option \<times> event list" where
  "ConsumerHandler_ConsumeClaim [] tr = (None, tr)"
| "ConsumerHandler_ConsumeClaim (message # rest) tr =
     ConsumerHandler_ConsumeClaim rest
       (tr @ [Log_Printf (cm_Topic message) (cm_Partition message) (cm_Offset message),
              Session_MarkMessage message ''''])"

text \<open>
  The state of the consumer process: for every channel made so far whether it has been
  closed, the channel in \<open>handler.ready\<close>, the counter of the one WaitGroup (the one
  \<open>handler.wg\<close> points to), and the calls of the claim loops.
\<close>

record ConsumerHandler =
  ready :: nat

record mainState =
  channels :: "bool list"
  handler :: ConsumerHandler
  wgCounter :: int
  events :: "event list"

definition make_chan :: "mainState \<Rightarrow> nat \<times> mainState" where
  "make_chan s = (length (channels s), s\<lparr>channels := channels s @ [False]\<rparr>)"

text \<open>Closing a channel that is already closed panics.\<close>

definition close_chan :: "nat \<Rightarrow> mainState \<Rightarrow> mainState outcome" where
  "close_chan c s =
     (if c < length (channels s) \<and> \<not> channels s ! c
      then Return (s\<lparr>channels := (channels s)[c := True]\<rparr>)
      else Panic CloseOfClosedChannel)"

text \<open>
  \<open>WaitGroup.Add(delta)\<close> panics when the counter would become negative;
  \<open>Done()\<close> is \<open>Add(-1)\<close>.
\<close>

definition WaitGroup_Add :: "int \<Rightarrow> mainState \<Rightarrow> mainState outcome" where
  "WaitGroup_Add delta s =
     (let v = wgCounter s + delta
      in if v < 0 then Panic NegativeWaitGroupCounter else Return (s\<lparr>wgCounter := v\<rparr>))"

definition Setup :: "mainState \<Rightarrow> mainState outcome" where
  "Setup s = close_chan (ready (handler s)) s"

definition Cleanup :: "mainState \<Rightarrow> mainState outcome" where
  "Cleanup s = WaitGroup_Add (- 1) s"

text \<open>
  One call of \<open>ConsumerGroup.Consume\<close> with the handler. Either the member does not get
  a session (the call returns an error and no hook runs), or it runs one session:
  \<open>Setup\<close> at its beginning, \<open>ConsumeClaim\<close> on each claim, \<open>Cleanup\<close> at its end.
\<close>

datatype consumeCall = NoSession error | Session "ConsumerMessage list list"

fun Consume :: "consumeCall \<Rightarrow> mainState \<Rightarrow> (error option \<times> mainState) outcome" where
  "Consume (NoSession err) s = Return (Some err, s)"
| "Consume (Session claims) s =
     (case Setup s of
        Panic x \<Rightarrow> Panic x
      | Return s1 \<Rightarrow>
          (let s2 = s1\<lparr>events :=
                 fold (\<lambda>claim tr. snd (ConsumerHandler_ConsumeClaim claim tr)) claims (events s1)\<rparr>
           in case Cleanup s2 of
                Panic x \<Rightarrow> Panic x
              | Return s3 \<Rightarrow> Return (None, s3)))"

text \<open>
  The loop of the goroutine started by \<open>main\<close>, over the calls of \<open>Consume\<close> it gets to
  make: each comes with whether the context is cancelled when the call has returned.
  The loop returns on a cancelled context and otherwise puts a new channel into
  \<open>handler.ready\<close> and calls \<open>Consume\<close> again.
\<close>

fun consumeLoop :: "(consumeCall \<times> bool) list \<Rightarrow> mainState \<Rightarrow> mainState outcome" where
  "consumeLoop [] s = Return s"
| "consumeLoop ((call, cancelled) # rest) s =
     (case Consume call s of
        Panic x \<Rightarrow> Panic x
      | Return (err, s1) \<Rightarrow>
          if cancelled then Return s1
          else (case make_chan s1 of
                  (c, s2) \<Rightarrow> consumeLoop rest (s2\<lparr>handler := (handler s2)\<lparr>ready := c\<rparr>\<rparr>)))"

text \<open>
  \<open>main\<close> from the WaitGroup on: \<open>wg.Add(1)\<close>, a handler with a new channel, the loop.
\<close>

definition consumer_main :: "(consumeCall \<times> bool) list \<Rightarrow> mainState outcome" where
  "consumer_main calls =
     (case WaitGroup_Add 1 \<lparr>channels = [], handler = \<lparr>ready = 0\<rparr>, wgCounter = 0, events = []\<rparr> of
        Panic x \<Rightarrow> Panic x
      | Return s0 \<Rightarrow>
          (case make_chan s0 of
             (c, s1) \<Rightarrow> consumeLoop calls (s1\<lparr>handler := \<lparr>ready = c\<rparr>\<rparr>)))"

section \<open>Concrete inputs\<close>

text \<open>
  The inputs at which the theorems below are evaluated. \<open>exampleTime\<close> is
  2026-01-01T00:00:00Z, and \<open>farTime\<close> is 10000-01-01T00:00:00Z, which
  \<open>time.Date(10000, 1, 1, 0, 0, 0, 0, time.UTC)\<close> returns. The ticket is the one of
  \<open>producer_test.go\<close>; \<open>orderTicket\<close> varies its \<open>ID\<close> and \<open>OrderID\<close>.
\<close>

definition exampleTime :: Time where
  "exampleTime = \<lparr>sec = 63902908800, nsec = 0, zoneOffset = 0\<rparr>"

definition farTime :: Time where
  "farTime = \<lparr>sec = 315537897600, nsec = 0, zoneOffset = 0\<rparr>"

definition orderTicket :: "string \<Rightarrow> int64 \<Rightarrow> Ticket" where
  "orderTicket ident order =
     \<lparr>ID = ident, Timestamp = exampleTime, OrderID = order, Data = ''test-data''\<rparr>"

definition testTicket :: Ticket where
  "testTicket = orderTicket ''test-id'' 1"

definition farTicket :: Ticket where
  "farTicket = testTicket\<lparr>Timestamp := farTime\<rparr>"

text \<open>
  A stand-in for the bytes of an encoding (the theorems do not look into them), and a
  \<open>Marshal\<close> that always succeeds with them.
\<close>

definition examplePayload :: "Ticket \<Rightarrow> byte list" where
  "examplePayload ticket = map of_char (ID ticket @ '':'' @ Data ticket)"

definition exampleMarshal :: "Ticket \<Rightarrow> error + byte list" where
  "exampleMarshal ticket = Inr (examplePayload ticket)"

text \<open>
  A decoder that agrees with \<open>json.Unmarshal\<close> on the two payloads used: the empty
  object decodes to the zero ticket, and \<open>not json\<close> is a syntax error.
\<close>

definition exampleUnmarshal :: "byte list \<Rightarrow> error + Ticket" where
  "exampleUnmarshal bs =
     (if bs = map of_char ''{}'' then
        Inr \<lparr>ID = '''', Timestamp = \<lparr>sec = 0, nsec = 0, zoneOffset = 0\<rparr>, OrderID = 0, Data = ''''\<rparr>
      else Inl (UnmarshalError ''invalid character''))"

definition exampleClock :: "nat \<Rightarrow> Time" where
  "exampleClock n = \<lparr>sec = 63902908800 + int n, nsec = 0, zoneOffset = 0\<rparr>"

definition exampleMessage :: "int64 \<Rightarrow> string \<Rightarrow> ConsumerMessage" where
  "exampleMessage offset payload =
     \<lparr>cm_Topic = ''tickets'', cm_Partition = 0, cm_Offset = offset, cm_Key = ''1'',
      cm_Value = map of_char payload\<rparr>"

definition exampleHandler :: Handler where
  "exampleHandler = NewHandler (Some (NewMetrics ''ticket_processor'')) 0 0"

definition startState :: cstate where
  "startState = \<lparr>reads = 0, trace = []\<rparr>"

text \<open>
  A cluster whose topic has three partitions, a client library that accepts every
  configuration and connects to it, a producer as \<open>NewProducer\<close> then returns it, the
  same producer with metrics, and a send that fails.
\<close>

definition exampleBroker :: Broker where
  "exampleBroker = \<lparr>partitions = [[], [], []]\<rparr>"

definition connectingNewSyncProducer :: "string list \<Rightarrow> Config \<Rightarrow> error + Broker" where
  "connectingNewSyncProducer addrs config = Inr exampleBroker"

definition testProducer :: "Broker Producer" where
  "testProducer = \<lparr>producer = exampleBroker, topic = ''test-topic'', metrics = None\<rparr>"

definition meteredProducer :: "Broker Producer" where
  "meteredProducer = testProducer\<lparr>metrics := Some (NewMetrics ''ticket_processor'')\<rparr>"

definition failingSendMessage ::
  "Broker \<Rightarrow> ProducerMessage \<Rightarrow> (error + int32 \<times> int64) \<times> Broker" where
  "failingSendMessage b msg =
     (Inl (BrokerError ''kafka: client has run out of available brokers to talk to''), b)"

section \<open>The producer: keys, partitions and logs\<close>

lemma formatBits_nonempty: "formatBits u base \<noteq> []"
  by (subst formatBits.simps) simp

lemma FormatInt_nonempty: "FormatInt i base \<noteq> []"
  by (simp add: FormatInt_def formatBits_nonempty)

lemma hashPartition_less: "0 < n \<Longrightarrow> hashPartition key n < n"
  using smod_int_range [where a = "sint (fnv1a (map of_char key))" and b = "int n"]
  by (auto simp: hashPartition_def Let_def)

lemma NewProducer_metrics_nil:
  "NewProducer NewSyncProducer brokers topic' = Inr p \<Longrightarrow> metrics p = None"
  by (auto simp: NewProducer_def split: sum.splits)

lemma SendTicket_nil_metrics:
  "metrics p = None \<Longrightarrow> Marshal ticket = Inr data \<Longrightarrow>
   fst (SendTicket Marshal SendMessage p ticket) = Panic NilPointerDereference
   \<and> snd (snd (SendTicket Marshal SendMessage p ticket)) = []"
  by (auto simp: SendTicket_def split: sum.splits prod.splits)

lemma SendTicket_marshal_error:
  "Marshal ticket = Inl err \<Longrightarrow>
   SendTicket Marshal SendMessage p ticket = (Return (Some err), p, [])"
  by (simp add: SendTicket_def)

lemma SendTicket_send_error:
  "Marshal ticket = Inr data \<Longrightarrow>
   SendMessage (producer p) (ticketMessage p ticket data) = (Inl err, c) \<Longrightarrow>
   metrics p = Some m \<Longrightarrow>
   SendTicket Marshal SendMessage p ticket =
     (Return (Some err), p\<lparr>producer := c\<rparr>, [Counter_Inc (ErrorsCount m)])"
  by (simp add: SendTicket_def)

lemma SendTicket_success:
  "Marshal ticket = Inr data \<Longrightarrow>
   SendMessage (producer p) (ticketMessage p ticket data) = (Inr po, c) \<Longrightarrow>
   metrics p = Some m \<Longrightarrow>
   SendTicket Marshal SendMessage p ticket =
     (Return None, p\<lparr>producer := c\<rparr>, [Counter_Inc (MessagesProduced m)])"
  by (simp add: SendTicket_def)

text \<open>
  Whatever \<open>SendTicket\<close> returns, once the ticket is encoded the client is left in the
  state the send produced.
\<close>

lemma SendTicket_producer:
  "Marshal ticket = Inr data \<Longrightarrow>
   fst (snd (SendTicket Marshal SendMessage p ticket)) =
     p\<lparr>producer := snd (SendMessage (producer p) (ticketMessage p ticket data))\<rparr>"
  by (auto simp: SendTicket_def split: prod.splits sum.splits option.splits)

lemma Broker_SendMessage_appends:
  "partitions b \<noteq> [] \<Longrightarrow>
   snd (Broker_SendMessage b msg) =
     b\<lparr>partitions := (partitions b)
          [hashPartition (pm_Key msg) (length (partitions b)) :=
             partitions b ! hashPartition (pm_Key msg) (length (partitions b)) @ [msg]]\<rparr>"
  by (simp add: Broker_SendMessage_def Let_def)

text \<open>
  After any sequence of \<open>SendTicket\<close> calls against the cluster, the log of partition
  \<open>k\<close> is what it was, followed by the messages of the tickets that were encoded and
  hash to \<open>k\<close>, in the order of the calls.
\<close>

lemma sends_fill_logs:
  fixes p :: "Broker Producer" and Marshal :: "Ticket \<Rightarrow> error + byte list"
    and ts :: "Ticket list"
  assumes "partitions (producer p) \<noteq> []"
  defines "p' \<equiv> fold (\<lambda>t q. fst (snd (SendTicket Marshal Broker_SendMessage q t))) ts p"
  shows "topic p' = topic p
           \<and> length (partitions (producer p')) = length (partitions (producer p))
           \<and> (\<forall>k < length (partitions (producer p)).
                partitions (producer p') ! k =
                  partitions (producer p) ! k @
                  concat (map (\<lambda>t. case Marshal t of
                                       Inl e \<Rightarrow> []
                                     | Inr d \<Rightarrow>
                                         if hashPartition (FormatInt (OrderID t) 10)
                                              (length (partitions (producer p))) = k
                                         then [ticketMessage p t d] else []) ts))"
  unfolding p'_def using assms(1)
proof (induction ts arbitrary: p)
  case Nil
  then show ?case by simp
next
  case (Cons t rest)
  let ?n = "length (partitions (producer p))"
  let ?after = "fold (\<lambda>t q. fst (snd (SendTicket Marshal Broker_SendMessage q t)))"
  have n: "0 < ?n" using Cons.prems by simp
  show ?case
  proof (cases "Marshal t")
    case (Inl err)
    have step: "?after (t # rest) p = ?after rest p"
      using Inl by (simp add: SendTicket_marshal_error)
    from Cons.IH [OF Cons.prems] show ?thesis
      unfolding step using Inl by auto
  next
    case (Inr d)
    let ?k = "hashPartition (FormatInt (OrderID t) 10) ?n"
    let ?msg = "ticketMessage p t d"
    let ?b = "(producer p)\<lparr>partitions :=
                (partitions (producer p))[?k := partitions (producer p) ! ?k @ [?msg]]\<rparr>"
    let ?p1 = "p\<lparr>producer := ?b\<rparr>"
    have k: "?k < ?n" using n by (rule hashPartition_less)
    have key: "pm_Key ?msg = FormatInt (OrderID t) 10" by (simp add: ticketMessage_def)
    have step: "?after (t # rest) p = ?after rest ?p1"
      using Cons.prems
      by (simp add: SendTicket_producer [where Marshal = Marshal and ticket = t and data = d, OF Inr]
            Broker_SendMessage_appends key)
    have p1: "partitions (producer ?p1) \<noteq> []"
      using Cons.prems by auto
    have same: "(\<lambda>t. case Marshal t of
                      Inl e \<Rightarrow> []
                    | Inr d \<Rightarrow>
                        if hashPartition (FormatInt (OrderID t) 10)
                             (length (partitions (producer ?p1))) = j
                        then [ticketMessage ?p1 t d] else []) =
               (\<lambda>t. case Marshal t of
                      Inl e \<Rightarrow> []
                    | Inr d \<Rightarrow>
                        if hashPartition (FormatInt (OrderID t) 10) ?n = j
                        then [ticketMessage p t d] else [])" for j
      by (auto simp: fun_eq_iff ticketMessage_def split: sum.splits)
    note IH = Cons.IH [OF p1, unfolded same]
    have "\<forall>k < ?n. partitions (producer (?after rest ?p1)) ! k =
                  partitions (producer p) ! k @
                  concat (map (\<lambda>t. case Marshal t of
                                       Inl e \<Rightarrow> []
                                     | Inr d \<Rightarrow>
                                         if hashPartition (FormatInt (OrderID t) 10) ?n = k
                                         then [ticketMessage p t d] else []) (t # rest))"
    proof (intro allI impI)
      fix j assume j: "j < ?n"
      show "partitions (producer (?after rest ?p1)) ! j =
                  partitions (producer p) ! j @
                  concat (map (\<lambda>t. case Marshal t of
                                       Inl e \<Rightarrow> []
                                     | Inr d \<Rightarrow>
                                         if hashPartition (FormatInt (OrderID t) 10) ?n = j
                                         then [ticketMessage p t d] else []) (t # rest))"
        using IH j k Inr by (cases "j = ?k") (simp_all cong: sum.case_cong)
    qed
    then show ?thesis
      unfolding step using IH by simp
  qed
qed

section \<open>The claim loops\<close>

lemma marked_append: "marked (xs @ ys) = marked xs @ marked ys"
  by (induction xs rule: marked.induct) auto

lemma marked_mem: "msg \<in> set (marked tr) \<Longrightarrow> \<exists>md. Session_MarkMessage msg md \<in> set tr"
  by (induction tr rule: marked.induct) auto

lemma counter_value_append:
  "counter_value c (xs @ ys) = counter_value c xs + counter_value c ys"
  by (simp add: counter_value_def)

lemma ConsumeClaim_trace_grows:
  "\<exists>evs. trace (snd (ConsumeClaim Unmarshal clock h msgs s)) = trace s @ evs"
proof (induction msgs arbitrary: s)
  case Nil
  show ?case by simp
next
  case (Cons message rest)
  show ?case
  proof (cases "h_metrics h")
    case None
    then show ?thesis by (simp add: Let_def split: sum.splits)
  next
    case (Some m)
    show ?thesis
    proof (cases "Unmarshal (cm_Value message)")
      case (Inl err)
      from Cons.IH [of "s\<lparr>reads := reads s + 1,
                          trace := trace s @ [Counter_Inc (ErrorsCount m)]\<rparr>"]
      show ?thesis using Some Inl by (auto simp: Let_def)
    next
      case (Inr ticket)
      from Cons.IH [of "s\<lparr>reads := reads s + 1 + 2,
             trace := trace s @
               [Counter_Inc (MessagesConsumed m),
                Histogram_Observe (ProcessingDuration m)
                  (Sub (clock (reads s + 1)) (clock (reads s))),
                Gauge_Set (ConsumerLag m) (Sub (clock (reads s + 1 + 1)) (Timestamp ticket)),
                Session_MarkMessage message '''']\<rparr>"]
      show ?thesis using Some Inr by (auto simp: Let_def)
    qed
  qed
qed

lemma ConsumeClaim_nil_metrics:
  "h_metrics h = None \<Longrightarrow> trace (snd (ConsumeClaim Unmarshal clock h msgs s)) = trace s"
  by (cases msgs) (auto simp: Let_def split: sum.splits)

lemma ConsumeClaim_returns:
  "h_metrics h = Some m \<Longrightarrow> fst (ConsumeClaim Unmarshal clock h msgs s) = Return None"
  by (induction msgs arbitrary: s) (auto simp: Let_def split: sum.splits)

lemma ConsumeClaim_marked:
  "h_metrics h = Some m \<Longrightarrow>
   marked (trace (snd (ConsumeClaim Unmarshal clock h msgs s))) =
     marked (trace s) @ filter (\<lambda>msg. \<not> isl (Unmarshal (cm_Value msg))) msgs"
  by (induction msgs arbitrary: s) (auto simp: Let_def marked_append split: sum.splits)

lemma ConsumeClaim_errors:
  "h_metrics h = Some m \<Longrightarrow> ErrorsCount m \<noteq> MessagesConsumed m \<Longrightarrow>
   counter_value (ErrorsCount m) (trace (snd (ConsumeClaim Unmarshal clock h msgs s))) =
     counter_value (ErrorsCount m) (trace s)
       + length (filter (\<lambda>msg. isl (Unmarshal (cm_Value msg))) msgs)"
  by (induction msgs arbitrary: s)
     (auto simp: Let_def counter_value_append counter_value_def split: sum.splits)

lemma ConsumeClaim_consumed:
  "h_metrics h = Some m \<Longrightarrow> ErrorsCount m \<noteq> MessagesConsumed m \<Longrightarrow>
   counter_value (MessagesConsumed m) (trace (snd (ConsumeClaim Unmarshal clock h msgs s))) =
     counter_value (MessagesConsumed m) (trace s)
       + length (filter (\<lambda>msg. \<not> isl (Unmarshal (cm_Value msg))) msgs)"
  by (induction msgs arbitrary: s)
     (auto simp: Let_def counter_value_append counter_value_def split: sum.splits)

text \<open>
  Every \<open>MarkMessage\<close> call of \<open>Handler.ConsumeClaim\<close> comes directly after the three
  metric updates of the same iteration, for a message of the claim that decoded.
\<close>

lemma ConsumeClaim_marks:
  "h_metrics h = Some m \<Longrightarrow>
   trace (snd (ConsumeClaim Unmarshal clock h msgs s)) = trace s @ evs \<Longrightarrow>
   evs = pre @ Session_MarkMessage msg md # post \<Longrightarrow>
   msg \<in> set msgs \<and> \<not> isl (Unmarshal (cm_Value msg)) \<and>
   (\<exists>pre' d l. pre = pre' @ [Counter_Inc (MessagesConsumed m),
                              Histogram_Observe (ProcessingDuration m) d,
                              Gauge_Set (ConsumerLag m) l])"
proof (induction msgs arbitrary: s evs pre)
  case Nil
  then show ?case by simp
next
  case (Cons x rest)
  show ?case
  proof (cases "Unmarshal (cm_Value x)")
    case (Inl err)
    define s1 where
      "s1 = s\<lparr>reads := reads s + 1, trace := trace s @ [Counter_Inc (ErrorsCount m)]\<rparr>"
    have step: "ConsumeClaim Unmarshal clock h (x # rest) s =
                ConsumeClaim Unmarshal clock h rest s1"
      using Inl Cons.prems(1) by (simp add: Let_def s1_def)
    obtain evs1 where
      evs1: "trace (snd (ConsumeClaim Unmarshal clock h rest s1)) = trace s1 @ evs1"
      using ConsumeClaim_trace_grows by blast
    have "evs = Counter_Inc (ErrorsCount m) # evs1"
      using Cons.prems(2) step evs1 by (simp add: s1_def)
    with Cons.prems(3) obtain pre1 where
      pre: "pre = Counter_Inc (ErrorsCount m) # pre1"
      and "evs1 = pre1 @ Session_MarkMessage msg md # post"
      by (cases pre) auto
    from Cons.IH [OF Cons.prems(1) evs1 this(2)] show ?thesis
      using pre by auto
  next
    case (Inr ticket)
    define B where
      "B = [Counter_Inc (MessagesConsumed m),
            Histogram_Observe (ProcessingDuration m)
              (Sub (clock (reads s + 1)) (clock (reads s))),
            Gauge_Set (ConsumerLag m) (Sub (clock (reads s + 1 + 1)) (Timestamp ticket)),
            Session_MarkMessage x '''']"
    define s1 where "s1 = s\<lparr>reads := reads s + 1 + 2, trace := trace s @ B\<rparr>"
    have step: "ConsumeClaim Unmarshal clock h (x # rest) s =
                ConsumeClaim Unmarshal clock h rest s1"
      using Inr Cons.prems(1) by (simp add: Let_def s1_def B_def)
    obtain evs1 where
      evs1: "trace (snd (ConsumeClaim Unmarshal clock h rest s1)) = trace s1 @ evs1"
      using ConsumeClaim_trace_grows by blast
    have evs: "evs = B @ evs1"
      using Cons.prems(2) step evs1 by (simp add: s1_def)
    from Cons.prems(3) evs consider
        (here) "pre = take 3 B" "msg = x" "md = ''''" "post = evs1"
      | (later) pre1 where "pre = B @ pre1" "evs1 = pre1 @ Session_MarkMessage msg md # post"
      by (auto simp: B_def Cons_eq_append_conv)
    then show ?thesis
    proof cases
      case here
      then show ?thesis using Inr by (auto simp: B_def)
    next
      case later
      from Cons.IH [OF Cons.prems(1) evs1 later(2)] show ?thesis
        using later(1) by auto
    qed
  qed
qed

lemma ConsumerHandler_trace_grows:
  "\<exists>evs. snd (ConsumerHandler_ConsumeClaim msgs tr) = tr @ evs"
proof (induction msgs arbitrary: tr)
  case Nil
  show ?case by simp
next
  case (Cons x rest)
  define B where
    "B = [Log_Printf (cm_Topic x) (cm_Partition x) (cm_Offset x), Session_MarkMessage x '''']"
  obtain evs where "snd (ConsumerHandler_ConsumeClaim rest (tr @ B)) = (tr @ B) @ evs"
    using Cons.IH by blast
  then have "snd (ConsumerHandler_ConsumeClaim (x # rest) tr) = tr @ (B @ evs)"
    by (simp add: B_def)
  then show ?case by blast
qed

lemma ConsumerHandler_marks:
  "snd (ConsumerHandler_ConsumeClaim msgs tr) = tr @ evs \<Longrightarrow>
   evs = pre @ Session_MarkMessage msg md # post \<Longrightarrow>
   msg \<in> set msgs \<and>
   (\<exists>pre'. pre = pre' @ [Log_Printf (cm_Topic msg) (cm_Partition msg) (cm_Offset msg)])"
proof (induction msgs arbitrary: tr evs pre)
  case Nil
  then show ?case by simp
next
  case (Cons x rest)
  define B where
    "B = [Log_Printf (cm_Topic x) (cm_Partition x) (cm_Offset x), Session_MarkMessage x '''']"
  obtain evs1 where
    evs1: "snd (ConsumerHandler_ConsumeClaim rest (tr @ B)) = (tr @ B) @ evs1"
    using ConsumerHandler_trace_grows by blast
  have evs: "evs = B @ evs1"
    using Cons.prems(1) evs1 by (simp add: B_def)
  from Cons.prems(2) evs consider
      (here) "pre = take 1 B" "msg = x" "md = ''''" "post = evs1"
    | (later) pre1 where "pre = B @ pre1" "evs1 = pre1 @ Session_MarkMessage msg md # post"
    by (auto simp: B_def Cons_eq_append_conv)
  then show ?case
  proof cases
    case here
    then show ?thesis by (auto simp: B_def)
  next
    case later
    from Cons.IH [OF evs1 later(2)] show ?thesis
      using later(1) by auto
  qed
qed

lemma ConsumerHandler_marked:
  "marked (snd (ConsumerHandler_ConsumeClaim msgs tr)) = marked tr @ msgs"
  by (induction msgs arbitrary: tr) (auto simp: marked_append)

text \<open>
  With metrics the loop runs through: a claim can be cut at any message, and the loop on
  the whole claim is the loop on the rest, from the state the first part leaves.
\<close>

lemma ConsumeClaim_append:
  "h_metrics h = Some m \<Longrightarrow>
   ConsumeClaim Unmarshal clock h (xs @ ys) s =
     ConsumeClaim Unmarshal clock h ys (snd (ConsumeClaim Unmarshal clock h xs s))"
  by (induction xs arbitrary: s) (auto simp: Let_def split: sum.splits)

lemma ConsumerHandler_append:
  "ConsumerHandler_ConsumeClaim (xs @ ys) tr =
     ConsumerHandler_ConsumeClaim ys (snd (ConsumerHandler_ConsumeClaim xs tr))"
  by (induction xs arbitrary: tr) auto

text \<open>
  Where a \<open>MarkMessage\<close> call stands in the trace of \<open>Handler.ConsumeClaim\<close>: the claim
  splits at the marked message; what comes before the call is the trace of the loop
  over the messages before it, followed by the three metric updates for the marked
  message itself (its own decoded ticket gives the lag); and the trace up to the call is
  the trace of the loop over the claim up to and including that message.
\<close>

lemma ConsumeClaim_mark_position:
  "h_metrics h = Some m \<Longrightarrow>
   trace (snd (ConsumeClaim Unmarshal clock h msgs s)) =
     trace s @ pre @ Session_MarkMessage msg md # post \<Longrightarrow>
   \<exists>earlier later ticket.
     msgs = earlier @ msg # later \<and> Unmarshal (cm_Value msg) = Inr ticket \<and> md = '''' \<and>
     trace s @ pre =
       trace (snd (ConsumeClaim Unmarshal clock h earlier s)) @
       [Counter_Inc (MessagesConsumed m),
        Histogram_Observe (ProcessingDuration m)
          (Sub (clock (reads (snd (ConsumeClaim Unmarshal clock h earlier s)) + 1))
               (clock (reads (snd (ConsumeClaim Unmarshal clock h earlier s))))),
        Gauge_Set (ConsumerLag m)
          (Sub (clock (reads (snd (ConsumeClaim Unmarshal clock h earlier s)) + 2))
               (Timestamp ticket))] \<and>
     trace s @ pre @ [Session_MarkMessage msg md] =
       trace (snd (ConsumeClaim Unmarshal clock h (earlier @ [msg]) s))"
proof (induction msgs arbitrary: s pre)
  case Nil
  then show ?case by simp
next
  case (Cons x rest)
  show ?case
  proof (cases "Unmarshal (cm_Value x)")
    case (Inl err)
    define s1 where
      "s1 = s\<lparr>reads := reads s + 1, trace := trace s @ [Counter_Inc (ErrorsCount m)]\<rparr>"
    have step: "ConsumeClaim Unmarshal clock h (x # ys) s =
                ConsumeClaim Unmarshal clock h ys s1" for ys
      using Inl Cons.prems(1) by (simp add: Let_def s1_def)
    obtain evs1 where
      evs1: "trace (snd (ConsumeClaim Unmarshal clock h rest s1)) = trace s1 @ evs1"
      using ConsumeClaim_trace_grows by blast
    have "pre @ Session_MarkMessage msg md # post = Counter_Inc (ErrorsCount m) # evs1"
      using Cons.prems(2) evs1 unfolding step by (simp add: s1_def)
    then obtain pre1 where pre1: "pre = Counter_Inc (ErrorsCount m) # pre1"
      and "evs1 = pre1 @ Session_MarkMessage msg md # post"
      by (cases pre) auto
    then have tr1: "trace (snd (ConsumeClaim Unmarshal clock h rest s1)) =
            trace s1 @ pre1 @ Session_MarkMessage msg md # post"
      using evs1 by simp
    have pre: "trace s @ pre = trace s1 @ pre1"
      using pre1 by (simp add: s1_def)
    from Cons.IH [OF Cons.prems(1) tr1] obtain earlier later ticket where
      IH: "rest = earlier @ msg # later" "Unmarshal (cm_Value msg) = Inr ticket" "md = ''''"
        "trace s1 @ pre1 =
           trace (snd (ConsumeClaim Unmarshal clock h earlier s1)) @
           [Counter_Inc (MessagesConsumed m),
            Histogram_Observe (ProcessingDuration m)
              (Sub (clock (reads (snd (ConsumeClaim Unmarshal clock h earlier s1)) + 1))
                   (clock (reads (snd (ConsumeClaim Unmarshal clock h earlier s1))))),
            Gauge_Set (ConsumerLag m)
              (Sub (clock (reads (snd (ConsumeClaim Unmarshal clock h earlier s1)) + 2))
                   (Timestamp ticket))]"
        "trace s1 @ pre1 @ [Session_MarkMessage msg md] =
           trace (snd (ConsumeClaim Unmarshal clock h (earlier @ [msg]) s1))"
      by blast
    have "x # rest = (x # earlier) @ msg # later" using IH(1) by simp
    moreover have "trace s @ pre @ [Session_MarkMessage msg md] =
           trace (snd (ConsumeClaim Unmarshal clock h ((x # earlier) @ [msg]) s))"
      unfolding append_Cons step using IH(5) pre by (metis append_assoc)
    moreover have "trace s @ pre =
           trace (snd (ConsumeClaim Unmarshal clock h (x # earlier) s)) @
           [Counter_Inc (MessagesConsumed m),
            Histogram_Observe (ProcessingDuration m)
              (Sub (clock (reads (snd (ConsumeClaim Unmarshal clock h (x # earlier) s)) + 1))
                   (clock (reads (snd (ConsumeClaim Unmarshal clock h (x # earlier) s))))),
            Gauge_Set (ConsumerLag m)
              (Sub (clock (reads (snd (ConsumeClaim Unmarshal clock h (x # earlier) s)) + 2))
                   (Timestamp ticket))]"
      unfolding step using IH(4) pre by simp
    ultimately show ?thesis using IH(2,3) by blast
  next
    case (Inr ticket)
    define B where
      "B = [Counter_Inc (MessagesConsumed m),
            Histogram_Observe (ProcessingDuration m)
              (Sub (clock (reads s + 1)) (clock (reads s))),
            Gauge_Set (ConsumerLag m) (Sub (clock (reads s + 1 + 1)) (Timestamp ticket)),
            Session_MarkMessage x '''']"
    define s1 where "s1 = s\<lparr>reads := reads s + 1 + 2, trace := trace s @ B\<rparr>"
    have step: "ConsumeClaim Unmarshal clock h (x # ys) s =
                ConsumeClaim Unmarshal clock h ys s1" for ys
      using Inr Cons.prems(1) by (simp add: Let_def s1_def B_def)
    obtain evs1 where
      evs1: "trace (snd (ConsumeClaim Unmarshal clock h rest s1)) = trace s1 @ evs1"
      using ConsumeClaim_trace_grows by blast
    have evs: "pre @ Session_MarkMessage msg md # post = B @ evs1"
      using Cons.prems(2) evs1 unfolding step by (simp add: s1_def)
    then consider
        (here) "pre = take 3 B" "msg = x" "md = ''''" "post = evs1"
      | (further) pre1 where "pre = B @ pre1" "evs1 = pre1 @ Session_MarkMessage msg md # post"
      by (auto simp: B_def Cons_eq_append_conv append_eq_Cons_conv)
    then show ?thesis
    proof cases
      case here
      have "x # rest = [] @ msg # rest" using here(2) by simp
      moreover have "trace s @ pre @ [Session_MarkMessage msg md] =
           trace (snd (ConsumeClaim Unmarshal clock h ([] @ [msg]) s))"
        using here Inr Cons.prems(1) by (simp add: Let_def B_def)
      moreover have "trace s @ pre =
           trace (snd (ConsumeClaim Unmarshal clock h [] s)) @
           [Counter_Inc (MessagesConsumed m),
            Histogram_Observe (ProcessingDuration m)
              (Sub (clock (reads (snd (ConsumeClaim Unmarshal clock h [] s)) + 1))
                   (clock (reads (snd (ConsumeClaim Unmarshal clock h [] s))))),
            Gauge_Set (ConsumerLag m)
              (Sub (clock (reads (snd (ConsumeClaim Unmarshal clock h [] s)) + 2))
                   (Timestamp ticket))]"
        using here by (simp add: B_def)
      ultimately show ?thesis using Inr here(2,3) by blast
    next
      case further
      have tr1: "trace (snd (ConsumeClaim Unmarshal clock h rest s1)) =
            trace s1 @ pre1 @ Session_MarkMessage msg md # post"
        using evs1 further(2) by simp
      have pre: "trace s @ pre = trace s1 @ pre1"
        using further(1) by (simp add: s1_def)
      from Cons.IH [OF Cons.prems(1) tr1] obtain earlier later ticket' where
        IH: "rest = earlier @ msg # later" "Unmarshal (cm_Value msg) = Inr ticket'" "md = ''''"
          "trace s1 @ pre1 =
             trace (snd (ConsumeClaim Unmarshal clock h earlier s1)) @
             [Counter_Inc (MessagesConsumed m),
              Histogram_Observe (ProcessingDuration m)
                (Sub (clock (reads (snd (ConsumeClaim Unmarshal clock h earlier s1)) + 1))
                     (clock (reads (snd (ConsumeClaim Unmarshal clock h earlier s1))))),
              Gauge_Set (ConsumerLag m)
                (Sub (clock (reads (snd (ConsumeClaim Unmarshal clock h earlier s1)) + 2))
                     (Timestamp ticket'))]"
          "trace s1 @ pre1 @ [Session_MarkMessage msg md] =
             trace (snd (ConsumeClaim Unmarshal clock h (earlier @ [msg]) s1))"
        by blast
      have "x # rest = (x # earlier) @ msg # later" using IH(1) by simp
      moreover have "trace s @ pre @ [Session_MarkMessage msg md] =
             trace (snd (ConsumeClaim Unmarshal clock h ((x # earlier) @ [msg]) s))"
        unfolding append_Cons step using IH(5) pre by (metis append_assoc)
      moreover have "trace s @ pre =
             trace (snd (ConsumeClaim Unmarshal clock h (x # earlier) s)) @
             [Counter_Inc (MessagesConsumed m),
              Histogram_Observe (ProcessingDuration m)
                (Sub (clock (reads (snd (ConsumeClaim Unmarshal clock h (x # earlier) s)) + 1))
                     (clock (reads (snd (ConsumeClaim Unmarshal clock h (x # earlier) s))))),
              Gauge_Set (ConsumerLag m)
                (Sub (clock (reads (snd (ConsumeClaim Unmarshal clock h (x # earlier) s)) + 2))
                     (Timestamp ticket'))]"
        unfolding step using IH(4) pre by simp
      ultimately show ?thesis using IH(2,3) by blast
    qed
  qed
qed

text \<open>The same for \<open>ConsumerHandler.ConsumeClaim\<close>, where the call before the mark logs.\<close>

lemma ConsumerHandler_mark_position:
  "snd (ConsumerHandler_ConsumeClaim msgs tr) =
     tr @ pre @ Session_MarkMessage msg md # post \<Longrightarrow>
   \<exists>earlier later.
     msgs = earlier @ msg # later \<and> md = '''' \<and>
     tr @ pre =
       snd (ConsumerHandler_ConsumeClaim earlier tr) @
       [Log_Printf (cm_Topic msg) (cm_Partition msg) (cm_Offset msg)] \<and>
     tr @ pre @ [Session_MarkMessage msg md] =
       snd (ConsumerHandler_ConsumeClaim (earlier @ [msg]) tr)"
proof (induction msgs arbitrary: tr pre)
  case Nil
  then show ?case by simp
next
  case (Cons x rest)
  define B where
    "B = [Log_Printf (cm_Topic x) (cm_Partition x) (cm_Offset x), Session_MarkMessage x '''']"
  have step: "ConsumerHandler_ConsumeClaim (x # ys) tr =
              ConsumerHandler_ConsumeClaim ys (tr @ B)" for ys
    by (simp add: B_def)
  obtain evs1 where
    evs1: "snd (ConsumerHandler_ConsumeClaim rest (tr @ B)) = (tr @ B) @ evs1"
    using ConsumerHandler_trace_grows by blast
  have evs: "pre @ Session_MarkMessage msg md # post = B @ evs1"
    using Cons.prems evs1 unfolding step by simp
  then consider
      (here) "pre = take 1 B" "msg = x" "md = ''''" "post = evs1"
    | (further) pre1 where "pre = B @ pre1" "evs1 = pre1 @ Session_MarkMessage msg md # post"
    by (auto simp: B_def Cons_eq_append_conv append_eq_Cons_conv)
  then show ?case
  proof cases
    case here
    have "x # rest = [] @ msg # rest" using here(2) by simp
    moreover have "tr @ pre @ [Session_MarkMessage msg md] =
         snd (ConsumerHandler_ConsumeClaim ([] @ [msg]) tr)"
      using here by (simp add: B_def)
    moreover have "tr @ pre =
         snd (ConsumerHandler_ConsumeClaim [] tr) @
         [Log_Printf (cm_Topic msg) (cm_Partition msg) (cm_Offset msg)]"
      using here by (simp add: B_def)
    ultimately show ?thesis using here(3) by blast
  next
    case further
    have tr1: "snd (ConsumerHandler_ConsumeClaim rest (tr @ B)) =
          (tr @ B) @ pre1 @ Session_MarkMessage msg md # post"
      using evs1 further(2) by simp
    have pre: "tr @ pre = (tr @ B) @ pre1" using further(1) by simp
    from Cons.IH [OF tr1] obtain earlier later where
      IH: "rest = earlier @ msg # later" "md = ''''"
        "(tr @ B) @ pre1 =
           snd (ConsumerHandler_ConsumeClaim earlier (tr @ B)) @
           [Log_Printf (cm_Topic msg) (cm_Partition msg) (cm_Offset msg)]"
        "(tr @ B) @ pre1 @ [Session_MarkMessage msg md] =
           snd (ConsumerHandler_ConsumeClaim (earlier @ [msg]) (tr @ B))"
      by blast
    have "x # rest = (x # earlier) @ msg # later" using IH(1) by simp
    moreover have "tr @ pre @ [Session_MarkMessage msg md] =
           snd (ConsumerHandler_ConsumeClaim ((x # earlier) @ [msg]) tr)"
      unfolding append_Cons step using IH(4) pre by (metis append_assoc)
    moreover have "tr @ pre =
           snd (ConsumerHandler_ConsumeClaim (x # earlier) tr) @
           [Log_Printf (cm_Topic msg) (cm_Partition msg) (cm_Offset msg)]"
      unfolding step using IH(3) pre by simp
    ultimately show ?thesis using IH(2) by blast
  qed
qed

subsection \<open>Marked offsets\<close>

lemma markedOffset_append:
  "markedOffset tp pt cur (xs @ ys) = markedOffset tp pt (markedOffset tp pt cur xs) ys"
  by (induction tp pt cur xs rule: markedOffset.induct) auto

lemma markedOffset_marked:
  "markedOffset tp pt cur evs =
     markedOffset tp pt cur (map (\<lambda>msg. Session_MarkMessage msg '''') (marked evs))"
  by (induction tp pt cur evs rule: markedOffset.induct) auto

lemma markedOffset_mono: "sint cur \<le> sint (markedOffset tp pt cur evs)"
  by (induction tp pt cur evs rule: markedOffset.induct) (auto split: if_splits)

lemma markedOffset_covers:
  "Session_MarkMessage msg md \<in> set evs \<Longrightarrow> cm_Topic msg = tp \<Longrightarrow> cm_Partition msg = pt \<Longrightarrow>
   sint (cm_Offset msg + 1) \<le> sint (markedOffset tp pt cur evs)"
proof (induction tp pt cur evs rule: markedOffset.induct)
  case (2 tp pt cur msg' md' evs)
  then show ?case
    using markedOffset_mono [of "cm_Offset msg' + 1" tp pt evs]
      markedOffset_mono [of cur tp pt evs]
    by (auto split: if_splits)
qed auto

lemma sint_succ:
  fixes x :: "64 word"
  assumes "sint x < 9223372036854775807"
  shows "sint (x + 1) = sint x + 1"
proof -
  have lo: "- (2 ^ 63) \<le> sint x" using sint_ge [of x] by simp
  have "sint (x + 1) = signed_take_bit 63 (sint x + 1)"
    by (simp add: sint_word_ariths)
  also have "\<dots> = sint x + 1"
    using lo assms by (intro signed_take_bit_int_eq_self) simp_all
  finally show ?thesis .
qed

section \<open>The session lifecycle of cmd/consumer\<close>

text \<open>
  The loop always calls \<open>Consume\<close> with a channel in \<open>handler.ready\<close> that has not been
  closed, so \<open>Setup\<close> never closes a channel twice.
\<close>

lemma consumeLoop_no_double_close:
  "ready (handler s) < length (channels s) \<Longrightarrow> \<not> channels s ! ready (handler s) \<Longrightarrow>
   consumeLoop calls s \<noteq> Panic CloseOfClosedChannel"
proof (induction calls arbitrary: s)
  case Nil
  show ?case by simp
next
  case (Cons a calls)
  obtain call cancelled where a: "a = (call, cancelled)" by (cases a)
  show ?case
  proof (cases call)
    case (NoSession err)
    have "consumeLoop calls
            (s\<lparr>channels := channels s @ [False],
               handler := (handler s)\<lparr>ready := length (channels s)\<rparr>\<rparr>)
            \<noteq> Panic CloseOfClosedChannel"
      by (rule Cons.IH) simp_all
    then show ?thesis using a NoSession by (simp add: make_chan_def)
  next
    case (Session claims)
    show ?thesis
      apply (simp add: a Session Setup_def close_chan_def Cons.prems Cleanup_def
          WaitGroup_Add_def Let_def make_chan_def)
      apply (intro impI conjI)
      apply (rule Cons.IH)
       apply (simp_all add: nth_append)
      done
  qed
qed

lemma consumer_main_no_double_close: "consumer_main calls \<noteq> Panic CloseOfClosedChannel"
  unfolding consumer_main_def
  by (simp add: WaitGroup_Add_def make_chan_def consumeLoop_no_double_close)

text \<open>One session, then a cancelled context: the process ends without a panic.\<close>

lemma consumer_main_one_session:
  "consumer_main [(Session claims, True)] =
     Return \<lparr>channels = [True], handler = \<lparr>ready = 0\<rparr>, wgCounter = 0,
             events = fold (\<lambda>claim tr. snd (ConsumerHandler_ConsumeClaim claim tr)) claims []\<rparr>"
  by (simp add: consumer_main_def WaitGroup_Add_def make_chan_def Setup_def close_chan_def
      Cleanup_def Let_def)

text \<open>
  Calls of \<open>Consume\<close> that fail without a session change neither the counter nor the
  fact that \<open>handler.ready\<close> holds an open channel.
\<close>

lemma consumeLoop_skips_failed_calls:
  "\<forall>x \<in> set pre. \<exists>err. x = (NoSession err, False) \<Longrightarrow>
   ready (handler s) < length (channels s) \<Longrightarrow> \<not> channels s ! ready (handler s) \<Longrightarrow>
   \<exists>s'. consumeLoop (pre @ rest) s = consumeLoop rest s'
       \<and> wgCounter s' = wgCounter s
       \<and> ready (handler s') < length (channels s') \<and> \<not> channels s' ! ready (handler s')"
proof (induction pre arbitrary: s)
  case Nil
  then show ?case by auto
next
  case (Cons x pre)
  then obtain err where x: "x = (NoSession err, False)" by auto
  have rest: "\<forall>x \<in> set pre. \<exists>err. x = (NoSession err, False)" using Cons.prems(1) by simp
  let ?next = "s\<lparr>channels := channels s @ [False],
                  handler := (handler s)\<lparr>ready := length (channels s)\<rparr>\<rparr>"
  have step: "consumeLoop ((x # pre) @ rest) s = consumeLoop (pre @ rest) ?next"
    by (simp add: x make_chan_def)
  from Cons.IH [OF rest, of ?next] show ?case
    unfolding step by simp
qed

lemma consumeLoop_session_at_zero:
  assumes "wgCounter s = 0"
    and "ready (handler s) < length (channels s)" and "\<not> channels s ! ready (handler s)"
  shows "consumeLoop ((Session claims, cancelled) # rest) s = Panic NegativeWaitGroupCounter"
  using assms by (simp add: Setup_def close_chan_def Cleanup_def WaitGroup_Add_def Let_def)

lemma consumeLoop_session_at_one:
  assumes "wgCounter s = 1"
    and "ready (handler s) < length (channels s)" and "\<not> channels s ! ready (handler s)"
  shows "\<exists>s'. consumeLoop ((Session claims, False) # rest) s = consumeLoop rest s'
           \<and> wgCounter s' = 0
           \<and> ready (handler s') < length (channels s') \<and> \<not> channels s' ! ready (handler s')"
proof -
  let ?next = "s\<lparr>events := fold (\<lambda>claim tr. snd (ConsumerHandler_ConsumeClaim claim tr))
                                claims (events s),
                  wgCounter := 0,
                  channels := (channels s)[ready (handler s) := True] @ [False],
                  handler := (handler s)\<lparr>ready := length (channels s)\<rparr>\<rparr>"
  have "consumeLoop ((Session claims, False) # rest) s = consumeLoop rest ?next"
    using assms
    by (simp add: Setup_def close_chan_def Cleanup_def WaitGroup_Add_def Let_def make_chan_def)
  moreover have "wgCounter ?next = 0" "ready (handler ?next) < length (channels ?next)"
    "\<not> channels ?next ! ready (handler ?next)"
    by (simp_all add: nth_append)
  ultimately show ?thesis by blast
qed

text \<open>
  However many calls fail before and between them, the second session to end brings
  the counter below zero.
\<close>

lemma second_session_always_panics:
  assumes "\<forall>x \<in> set pre. \<exists>err. x = (NoSession err, False)"
    and "\<forall>x \<in> set mid. \<exists>err. x = (NoSession err, False)"
  shows "consumer_main (pre @ (Session claims, False) # mid @ (Session claims', cancelled) # rest)
           = Panic NegativeWaitGroupCounter"
proof -
  let ?init = "\<lparr>channels = [False], handler = \<lparr>ready = 0\<rparr>, wgCounter = 1, events = []\<rparr>"
  let ?tail = "mid @ (Session claims', cancelled) # rest"
  have main: "consumer_main calls = consumeLoop calls ?init" for calls
    by (simp add: consumer_main_def WaitGroup_Add_def make_chan_def)
  from consumeLoop_skips_failed_calls [OF assms(1), of ?init "(Session claims, False) # ?tail"]
  obtain sa where sa: "consumeLoop (pre @ (Session claims, False) # ?tail) ?init =
        consumeLoop ((Session claims, False) # ?tail) sa"
    and sap: "wgCounter sa = 1" "ready (handler sa) < length (channels sa)"
      "\<not> channels sa ! ready (handler sa)"
    by auto
  from consumeLoop_session_at_one [OF sap, of claims ?tail]
  obtain sb where sb: "consumeLoop ((Session claims, False) # ?tail) sa = consumeLoop ?tail sb"
    and sbp: "wgCounter sb = 0" "ready (handler sb) < length (channels sb)"
      "\<not> channels sb ! ready (handler sb)"
    by auto
  from consumeLoop_skips_failed_calls [OF assms(2) sbp(2,3), of "(Session claims', cancelled) # rest"]
  obtain sc where sc: "consumeLoop ?tail sb = consumeLoop ((Session claims', cancelled) # rest) sc"
    and scp: "wgCounter sc = 0" "ready (handler sc) < length (channels sc)"
      "\<not> channels sc ! ready (handler sc)"
    using sbp(1) by auto
  show ?thesis
    unfolding main sa sb sc using scp by (rule consumeLoop_session_at_zero)
qed

section \<open>The claims\<close>

text \<open>
  C1. Two tickets with the same \<open>OrderID\<close> get the same partition key, the decimal string
  of the \<open>OrderID\<close>, and the hash partitioner sends both to the same partition \<open>k\<close>.
  When the first is published before the second (with any other tickets before, between
  and after them), the record of the first stands at a smaller offset of the log of
  \<open>k\<close> than the record of the second, and a consumer of that partition handles the
  record at offset \<open>i\<close> as its \<open>i\<close>-th message: the first before the second.
\<close>

theorem ordered_delivery_by_order_key:
  fixes p :: "Broker Producer" and Marshal :: "Ticket \<Rightarrow> error + byte list"
    and a b c :: "Ticket list" and t1 t2 :: Ticket
  assumes "partitions (producer p) \<noteq> []"
    and "OrderID t1 = OrderID t2"
    and "Marshal t1 = Inr d1" and "Marshal t2 = Inr d2"
  defines "p' \<equiv> fold (\<lambda>t q. fst (snd (SendTicket Marshal Broker_SendMessage q t)))
                  (a @ t1 # b @ t2 # c) p"
    and "k \<equiv> hashPartition (FormatInt (OrderID t1) 10) (length (partitions (producer p)))"
  shows "pm_Key (ticketMessage p t1 d1) = FormatInt (OrderID t1) 10
       \<and> pm_Key (ticketMessage p t2 d2) = pm_Key (ticketMessage p t1 d1)
       \<and> hashPartition (pm_Key (ticketMessage p t2 d2)) (length (partitions (producer p))) = k
       \<and> k < length (partitions (producer p'))
       \<and> (\<exists>i j. i < j \<and> j < length (partitions (producer p') ! k)
              \<and> partitions (producer p') ! k ! i = ticketMessage p t1 d1
              \<and> partitions (producer p') ! k ! j = ticketMessage p t2 d2
              \<and> marked (snd (ConsumerHandler_ConsumeClaim
                   (claimMessages k (partitions (producer p') ! k)) [])) ! i =
                  \<lparr>cm_Topic = topic p, cm_Partition = word_of_nat k, cm_Offset = word_of_nat i,
                   cm_Key = FormatInt (OrderID t1) 10, cm_Value = d1\<rparr>
              \<and> marked (snd (ConsumerHandler_ConsumeClaim
                   (claimMessages k (partitions (producer p') ! k)) [])) ! j =
                  \<lparr>cm_Topic = topic p, cm_Partition = word_of_nat k, cm_Offset = word_of_nat j,
                   cm_Key = FormatInt (OrderID t2) 10, cm_Value = d2\<rparr>)"
proof -
  let ?n = "length (partitions (producer p))"
  let ?S = "\<lambda>ts. concat (map (\<lambda>t. case Marshal t of
                                       Inl e \<Rightarrow> []
                                     | Inr d \<Rightarrow>
                                         if hashPartition (FormatInt (OrderID t) 10) ?n = k
                                         then [ticketMessage p t d] else []) ts)"
  let ?L = "partitions (producer p') ! k"
  let ?handled = "marked (snd (ConsumerHandler_ConsumeClaim (claimMessages k ?L) []))"
  have n: "0 < ?n" using assms(1) by simp
  have k: "k < ?n" unfolding k_def using n by (rule hashPartition_less)
  have k2: "hashPartition (FormatInt (OrderID t2) 10) ?n = k"
    using assms(2) by (simp add: k_def)
  from sends_fill_logs [OF assms(1), of Marshal "a @ t1 # b @ t2 # c"]
  have len: "length (partitions (producer p')) = ?n"
    and log: "?L = partitions (producer p) ! k @ ?S (a @ t1 # b @ t2 # c)"
    using k unfolding p'_def by auto
  have S: "?S (a @ t1 # b @ t2 # c) =
      ?S a @ ticketMessage p t1 d1 # ?S b @ ticketMessage p t2 d2 # ?S c"
    using assms(3,4) k2 by (simp add: k_def)
  define i where "i = length (partitions (producer p) ! k @ ?S a)"
  define j where "j = Suc (i + length (?S b))"
  have L: "?L = (partitions (producer p) ! k @ ?S a) @ ticketMessage p t1 d1 # ?S b @
                ticketMessage p t2 d2 # ?S c"
    using log S by simp
  have i: "?L ! i = ticketMessage p t1 d1"
    unfolding L i_def by (simp only: nth_append_length)
  have L': "?L = ((partitions (producer p) ! k @ ?S a) @ ticketMessage p t1 d1 # ?S b) @
                ticketMessage p t2 d2 # ?S c"
    using L by simp
  have j: "?L ! j = ticketMessage p t2 d2"
  proof -
    have "j = length ((partitions (producer p) ! k @ ?S a) @ ticketMessage p t1 d1 # ?S b)"
      by (simp add: j_def i_def)
    then show ?thesis unfolding L' by (simp only: nth_append_length)
  qed
  have jlen: "j < length ?L"
    unfolding L by (simp add: j_def i_def)
  have ij: "i < j" by (simp add: j_def)
  have handled: "?handled ! x =
      \<lparr>cm_Topic = pm_Topic (?L ! x), cm_Partition = word_of_nat k, cm_Offset = word_of_nat x,
       cm_Key = pm_Key (?L ! x), cm_Value = pm_Value (?L ! x)\<rparr>" if "x < length ?L" for x
    using that by (simp add: ConsumerHandler_marked claimMessages_def nth_enumerate_eq)
  have "?handled ! i =
          \<lparr>cm_Topic = topic p, cm_Partition = word_of_nat k, cm_Offset = word_of_nat i,
           cm_Key = FormatInt (OrderID t1) 10, cm_Value = d1\<rparr>"
    using handled [of i] ij jlen i by (simp add: ticketMessage_def)
  moreover have "?handled ! j =
          \<lparr>cm_Topic = topic p, cm_Partition = word_of_nat k, cm_Offset = word_of_nat j,
           cm_Key = FormatInt (OrderID t2) 10, cm_Value = d2\<rparr>"
    using handled [of j] jlen j by (simp add: ticketMessage_def)
  ultimately have "\<exists>i j. i < j \<and> j < length ?L
              \<and> ?L ! i = ticketMessage p t1 d1
              \<and> ?L ! j = ticketMessage p t2 d2
              \<and> ?handled ! i =
                  \<lparr>cm_Topic = topic p, cm_Partition = word_of_nat k, cm_Offset = word_of_nat i,
                   cm_Key = FormatInt (OrderID t1) 10, cm_Value = d1\<rparr>
              \<and> ?handled ! j =
                  \<lparr>cm_Topic = topic p, cm_Partition = word_of_nat k, cm_Offset = word_of_nat j,
                   cm_Key = FormatInt (OrderID t2) 10, cm_Value = d2\<rparr>"
    using ij jlen i j by blast
  moreover have "pm_Key (ticketMessage p t1 d1) = FormatInt (OrderID t1) 10"
    "pm_Key (ticketMessage p t2 d2) = pm_Key (ticketMessage p t1 d1)"
    "hashPartition (pm_Key (ticketMessage p t2 d2)) ?n = k"
    using assms(2) by (simp_all add: ticketMessage_def k_def)
  ultimately show ?thesis using k len by simp
qed

text \<open>
  At three tickets published to a topic of three partitions, the first and the third
  with \<open>OrderID\<close> 7 and the second with \<open>OrderID\<close> 8.
\<close>

theorem ordered_delivery_by_order_key_witness:
  "partitions (producer testProducer) \<noteq> []
   \<and> OrderID (orderTicket ''a'' 7) = OrderID (orderTicket ''c'' 7)
   \<and> exampleMarshal (orderTicket ''a'' 7) = Inr (examplePayload (orderTicket ''a'' 7))
   \<and> exampleMarshal (orderTicket ''c'' 7) = Inr (examplePayload (orderTicket ''c'' 7))
   \<and> pm_Key (ticketMessage testProducer (orderTicket ''c'' 7)
        (examplePayload (orderTicket ''c'' 7))) = ''7''
   \<and> partitions (producer
        (fold (\<lambda>t q. fst (snd (SendTicket exampleMarshal Broker_SendMessage q t)))
           ([] @ orderTicket ''a'' 7 # [orderTicket ''b'' 8] @ orderTicket ''c'' 7 # [])
           testProducer)) !
        hashPartition (FormatInt (OrderID (orderTicket ''a'' 7)) 10)
          (length (partitions (producer testProducer))) \<noteq> []"
proof -
  have h1: "partitions (producer testProducer) \<noteq> []"
    by (simp add: testProducer_def exampleBroker_def)
  have h2: "OrderID (orderTicket ''a'' 7) = OrderID (orderTicket ''c'' 7)"
    by (simp add: orderTicket_def)
  have h3: "exampleMarshal (orderTicket ''a'' 7) = Inr (examplePayload (orderTicket ''a'' 7))"
    and h4: "exampleMarshal (orderTicket ''c'' 7) = Inr (examplePayload (orderTicket ''c'' 7))"
    by (simp_all add: exampleMarshal_def)
  have key: "FormatInt 7 10 = ''7''"
    by (simp add: FormatInt_def formatBits.simps digits_def)
  note inst = ordered_delivery_by_order_key [OF h1 h2 h3 h4,
      where a = "[]" and b = "[orderTicket ''b'' 8]" and c = "[]"]
  from inst have "pm_Key (ticketMessage testProducer (orderTicket ''c'' 7)
        (examplePayload (orderTicket ''c'' 7))) = ''7''"
    using key by (simp add: orderTicket_def)
  moreover from inst have "partitions (producer
        (fold (\<lambda>t q. fst (snd (SendTicket exampleMarshal Broker_SendMessage q t)))
           ([] @ orderTicket ''a'' 7 # [orderTicket ''b'' 8] @ orderTicket ''c'' 7 # [])
           testProducer)) !
        hashPartition (FormatInt (OrderID (orderTicket ''a'' 7)) 10)
          (length (partitions (producer testProducer))) \<noteq> []"
    by fastforce
  ultimately show ?thesis using h1 h2 h3 h4 by blast
qed

text \<open>
  C8. The partition key \<open>SendTicket\<close> puts into the message is
  \<open>strconv.FormatInt(ticket.OrderID, 10)\<close>, and that string is never empty.
\<close>

theorem partition_key_nonempty:
  "pm_Key (ticketMessage p ticket data) = FormatInt (OrderID ticket) 10
   \<and> pm_Key (ticketMessage p ticket data) \<noteq> ''''"
  by (simp add: ticketMessage_def FormatInt_nonempty)

text \<open>
  C2, as the code has it. For a handler with metrics (and an error counter that is not
  the consumed counter), on every list of messages a claim delivers: the loop returns
  nil after the last message; the error counter goes up by the number of messages that
  do not decode; the messages that decode are marked, all of them and in their order,
  so a message after a bad one is still processed; a bad message itself is never
  marked. The marked offset of a partition is therefore decided by the messages that
  decode: it stays where it was when none does, and it is beyond a bad record once a
  message of the claim at the same or a later offset has decoded.
\<close>

theorem malformed_record_skipped_and_counted:
  assumes "h_metrics h = Some m" and "ErrorsCount m \<noteq> MessagesConsumed m"
  shows "fst (ConsumeClaim Unmarshal clock h msgs s) = Return None
    \<and> counter_value (ErrorsCount m) (trace (snd (ConsumeClaim Unmarshal clock h msgs s))) =
        counter_value (ErrorsCount m) (trace s)
          + length (filter (\<lambda>msg. isl (Unmarshal (cm_Value msg))) msgs)
    \<and> marked (trace (snd (ConsumeClaim Unmarshal clock h msgs s))) =
        marked (trace s) @ filter (\<lambda>msg. \<not> isl (Unmarshal (cm_Value msg))) msgs
    \<and> markedOffset tp pt cur (trace (snd (ConsumeClaim Unmarshal clock h msgs s))) =
        markedOffset tp pt (markedOffset tp pt cur (trace s))
          (map (\<lambda>msg. Session_MarkMessage msg '''')
             (filter (\<lambda>msg. \<not> isl (Unmarshal (cm_Value msg))) msgs))
    \<and> ((\<forall>msg \<in> set msgs. isl (Unmarshal (cm_Value msg))) \<longrightarrow>
         markedOffset tp pt cur (trace (snd (ConsumeClaim Unmarshal clock h msgs s))) =
           markedOffset tp pt cur (trace s))
    \<and> (\<forall>bad good :: ConsumerMessage.
          bad \<in> set msgs \<and> isl (Unmarshal (cm_Value bad))
          \<and> good \<in> set msgs \<and> \<not> isl (Unmarshal (cm_Value good))
          \<and> cm_Topic good = tp \<and> cm_Partition good = pt
          \<and> sint (cm_Offset bad) \<le> sint (cm_Offset good)
          \<and> sint (cm_Offset good) < 9223372036854775807
        \<longrightarrow> sint (cm_Offset bad)
              < sint (markedOffset tp pt cur (trace (snd (ConsumeClaim Unmarshal clock h msgs s)))))"
proof -
  let ?tr = "trace (snd (ConsumeClaim Unmarshal clock h msgs s))"
  let ?good = "filter (\<lambda>msg. \<not> isl (Unmarshal (cm_Value msg))) msgs"
  have m: "marked ?tr = marked (trace s) @ ?good"
    using assms(1) by (rule ConsumeClaim_marked)
  have "markedOffset tp pt cur ?tr =
          markedOffset tp pt cur (map (\<lambda>msg. Session_MarkMessage msg '''') (marked ?tr))"
    by (rule markedOffset_marked)
  also have "\<dots> = markedOffset tp pt
        (markedOffset tp pt cur (map (\<lambda>msg. Session_MarkMessage msg '''') (marked (trace s))))
        (map (\<lambda>msg. Session_MarkMessage msg '''') ?good)"
    by (simp add: m markedOffset_append)
  also have "\<dots> = markedOffset tp pt (markedOffset tp pt cur (trace s))
        (map (\<lambda>msg. Session_MarkMessage msg '''') ?good)"
    by (simp add: markedOffset_marked [symmetric])
  finally have off: "markedOffset tp pt cur ?tr =
     markedOffset tp pt (markedOffset tp pt cur (trace s))
        (map (\<lambda>msg. Session_MarkMessage msg '''') ?good)" .
  have stays: "markedOffset tp pt cur ?tr = markedOffset tp pt cur (trace s)"
    if "\<forall>msg \<in> set msgs. isl (Unmarshal (cm_Value msg))"
  proof -
    from that have "?good = []" by (simp add: filter_empty_conv)
    then show ?thesis using off by simp
  qed
  have past: "sint (cm_Offset bad) < sint (markedOffset tp pt cur ?tr)"
    if "good \<in> set msgs" "\<not> isl (Unmarshal (cm_Value good))"
       "cm_Topic good = tp" "cm_Partition good = pt"
       "sint (cm_Offset bad) \<le> sint (cm_Offset good)"
       "sint (cm_Offset good) < 9223372036854775807" for bad good :: ConsumerMessage
  proof -
    have "good \<in> set (marked ?tr)" using that(1,2) m by simp
    then obtain md where "Session_MarkMessage good md \<in> set ?tr"
      using marked_mem by blast
    from markedOffset_covers [OF this that(3,4), of cur]
    have "sint (cm_Offset good + 1) \<le> sint (markedOffset tp pt cur ?tr)" .
    then show ?thesis using sint_succ [OF that(6)] that(5) by simp
  qed
  show ?thesis
    using ConsumeClaim_returns [OF assms(1)] ConsumeClaim_errors [OF assms] m off stays past
    by blast
qed

text \<open>
  At a claim that delivers a record that does not decode at offset 7 and one that
  decodes at offset 8, from a marked offset of 7.
\<close>

theorem malformed_record_skipped_and_counted_witness:
  "h_metrics exampleHandler = Some (NewMetrics ''ticket_processor'')
   \<and> ErrorsCount (NewMetrics ''ticket_processor'')
       \<noteq> MessagesConsumed (NewMetrics ''ticket_processor'')
   \<and> isl (exampleUnmarshal (cm_Value (exampleMessage 7 ''not json'')))
   \<and> \<not> isl (exampleUnmarshal (cm_Value (exampleMessage 8 ''{}'')))
   \<and> counter_value (ErrorsCount (NewMetrics ''ticket_processor''))
        (trace (snd (ConsumeClaim exampleUnmarshal exampleClock exampleHandler
           [exampleMessage 7 ''not json'', exampleMessage 8 ''{}''] startState))) = 1
   \<and> marked (trace (snd (ConsumeClaim exampleUnmarshal exampleClock exampleHandler
           [exampleMessage 7 ''not json'', exampleMessage 8 ''{}''] startState))) =
        [exampleMessage 8 ''{}'']
   \<and> sint (cm_Offset (exampleMessage 7 ''not json''))
        < sint (markedOffset ''tickets'' 0 7
            (trace (snd (ConsumeClaim exampleUnmarshal exampleClock exampleHandler
               [exampleMessage 7 ''not json'', exampleMessage 8 ''{}''] startState))))"
proof -
  have h1: "h_metrics exampleHandler = Some (NewMetrics ''ticket_processor'')"
    by (simp add: exampleHandler_def NewHandler_def)
  have h2: "ErrorsCount (NewMetrics ''ticket_processor'')
       \<noteq> MessagesConsumed (NewMetrics ''ticket_processor'')"
    by (simp add: NewMetrics_def)
  have bad: "isl (exampleUnmarshal (cm_Value (exampleMessage 7 ''not json'')))"
    and good: "\<not> isl (exampleUnmarshal (cm_Value (exampleMessage 8 ''{}'')))"
    by (simp_all add: exampleUnmarshal_def exampleMessage_def)
  have offs: "sint (cm_Offset (exampleMessage 7 ''not json''))
                \<le> sint (cm_Offset (exampleMessage 8 ''{}''))"
    "sint (cm_Offset (exampleMessage 8 ''{}'')) < 9223372036854775807"
    "cm_Topic (exampleMessage 8 ''{}'') = ''tickets''"
    "cm_Partition (exampleMessage 8 ''{}'') = 0"
    by (simp_all add: exampleMessage_def)
  note inst = malformed_record_skipped_and_counted [OF h1 h2,
      where Unmarshal = exampleUnmarshal and clock = exampleClock and s = startState
        and msgs = "[exampleMessage 7 ''not json'', exampleMessage 8 ''{}'']"
        and tp = "''tickets''" and pt = 0 and cur = 7]
  from inst have "counter_value (ErrorsCount (NewMetrics ''ticket_processor''))
        (trace (snd (ConsumeClaim exampleUnmarshal exampleClock exampleHandler
           [exampleMessage 7 ''not json'', exampleMessage 8 ''{}''] startState))) = 1"
    using bad good by (simp add: startState_def counter_value_def)
  moreover from inst have "marked (trace (snd (ConsumeClaim exampleUnmarshal exampleClock
           exampleHandler [exampleMessage 7 ''not json'', exampleMessage 8 ''{}''] startState))) =
        [exampleMessage 8 ''{}'']"
    using bad good by (simp add: startState_def)
  moreover from inst have "sint (cm_Offset (exampleMessage 7 ''not json''))
        < sint (markedOffset ''tickets'' 0 7
            (trace (snd (ConsumeClaim exampleUnmarshal exampleClock exampleHandler
               [exampleMessage 7 ''not json'', exampleMessage 8 ''{}''] startState))))"
    using bad good offs by (meson list.set_intros)
  ultimately show ?thesis using h1 h2 bad good by blast
qed

text \<open>
  C2 as stated fails: when the only record of the claim does not decode, the error is
  counted, nothing is marked, and the marked offset of the partition is still 7, the
  offset of the bad record, not beyond it.
\<close>

theorem malformed_record_offset_counterexample:
  "counter_value (ErrorsCount (NewMetrics ''ticket_processor''))
        (trace (snd (ConsumeClaim exampleUnmarshal exampleClock exampleHandler
           [exampleMessage 7 ''not json''] startState))) = 1
   \<and> marked (trace (snd (ConsumeClaim exampleUnmarshal exampleClock exampleHandler
           [exampleMessage 7 ''not json''] startState))) = []
   \<and> markedOffset ''tickets'' 0 7
        (trace (snd (ConsumeClaim exampleUnmarshal exampleClock exampleHandler
           [exampleMessage 7 ''not json''] startState))) = 7
   \<and> \<not> sint (cm_Offset (exampleMessage 7 ''not json''))
        < sint (markedOffset ''tickets'' 0 7
            (trace (snd (ConsumeClaim exampleUnmarshal exampleClock exampleHandler
               [exampleMessage 7 ''not json''] startState))))"
  by (simp add: exampleUnmarshal_def exampleMessage_def exampleHandler_def NewHandler_def
      NewMetrics_def startState_def counter_value_def Let_def)

text \<open>
  C3. \<open>NewProducer\<close> turns idempotence on and leaves \<open>Net.MaxOpenRequests\<close> at the
  default of 5, which the client library does not accept for an idempotent producer:
  \<open>NewSyncProducer\<close> returns a configuration error before it contacts any broker, and
  \<open>NewProducer\<close> returns that error, whatever the brokers and the topic.
\<close>

theorem NewProducer_rejected_by_validation:
  "NewProducer (sarama_NewSyncProducer dial) brokers topic' =
     Inl (ConfigurationError ''Idempotent producer requires Net.MaxOpenRequests to be 1'')"
  by (simp add: NewProducer_def sarama_NewSyncProducer_def verifyProducerConfig_def
      Validate_def producerConfig_def NewConfig_def IsAtLeast_def)

text \<open>With one request in flight the same configuration would pass.\<close>

lemma producerConfig_valid_with_one_request:
  "Validate (producerConfig\<lparr>Net_MaxOpenRequests := 1\<rparr>) = None
   \<and> verifyProducerConfig (producerConfig\<lparr>Net_MaxOpenRequests := 1\<rparr>) = None"
  by (simp add: Validate_def verifyProducerConfig_def producerConfig_def NewConfig_def
      IsAtLeast_def)

text \<open>
  C4. In both handlers a message is marked only after that message has been processed.
  Take any \<open>MarkMessage\<close> call in the trace of \<open>Handler.ConsumeClaim\<close>. The claim
  splits at the marked message into the messages before it, the message and the
  messages after it; the message decoded; the calls before the mark are exactly the
  trace of the loop over the messages before it, followed by the three metric updates
  for the marked message itself (the lag is that of its own ticket); the trace up to
  and including the mark is the trace of the loop over the claim up to and including
  that message; the marks made before are those of the earlier messages that decoded,
  and the marks made after are those of the later ones. So no message is marked before
  its own processing or in place of another. In the trace of
  \<open>ConsumerHandler.ConsumeClaim\<close> the same holds with the log call for the marked message
  as its processing.
\<close>

theorem mark_only_after_processing:
  "(trace (snd (ConsumeClaim Unmarshal clock h msgs s)) =
      trace s @ pre @ Session_MarkMessage msg md # post \<longrightarrow>
      msg \<in> set msgs \<and> \<not> isl (Unmarshal (cm_Value msg)) \<and>
      (\<exists>m pre' d l. h_metrics h = Some m \<and>
         pre = pre' @ [Counter_Inc (MessagesConsumed m),
                       Histogram_Observe (ProcessingDuration m) d,
                       Gauge_Set (ConsumerLag m) l]) \<and>
      (\<exists>m earlier later ticket.
         h_metrics h = Some m \<and> msgs = earlier @ msg # later \<and>
         Unmarshal (cm_Value msg) = Inr ticket \<and>
         trace s @ pre =
           trace (snd (ConsumeClaim Unmarshal clock h earlier s)) @
           [Counter_Inc (MessagesConsumed m),
            Histogram_Observe (ProcessingDuration m)
              (Sub (clock (reads (snd (ConsumeClaim Unmarshal clock h earlier s)) + 1))
                   (clock (reads (snd (ConsumeClaim Unmarshal clock h earlier s))))),
            Gauge_Set (ConsumerLag m)
              (Sub (clock (reads (snd (ConsumeClaim Unmarshal clock h earlier s)) + 2))
                   (Timestamp ticket))] \<and>
         trace s @ pre @ [Session_MarkMessage msg md] =
           trace (snd (ConsumeClaim Unmarshal clock h (earlier @ [msg]) s)) \<and>
         marked (trace s @ pre) =
           marked (trace s) @ filter (\<lambda>x. \<not> isl (Unmarshal (cm_Value x))) earlier \<and>
         marked post = filter (\<lambda>x. \<not> isl (Unmarshal (cm_Value x))) later))
   \<and> (snd (ConsumerHandler_ConsumeClaim claim tr) =
        tr @ preL @ Session_MarkMessage logged mdL # postL \<longrightarrow>
      logged \<in> set claim \<and>
      (\<exists>pre'. preL = pre' @ [Log_Printf (cm_Topic logged) (cm_Partition logged) (cm_Offset logged)]) \<and>
      (\<exists>earlier later.
         claim = earlier @ logged # later \<and>
         tr @ preL =
           snd (ConsumerHandler_ConsumeClaim earlier tr) @
           [Log_Printf (cm_Topic logged) (cm_Partition logged) (cm_Offset logged)] \<and>
         tr @ preL @ [Session_MarkMessage logged mdL] =
           snd (ConsumerHandler_ConsumeClaim (earlier @ [logged]) tr) \<and>
         marked (tr @ preL) = marked tr @ earlier \<and>
         marked postL = later))"
proof (intro conjI impI)
  assume tr: "trace (snd (ConsumeClaim Unmarshal clock h msgs s)) =
      trace s @ pre @ Session_MarkMessage msg md # post"
  let ?good = "\<lambda>x. \<not> isl (Unmarshal (cm_Value x))"
  have "h_metrics h \<noteq> None"
  proof
    assume "h_metrics h = None"
    from ConsumeClaim_nil_metrics [OF this, of Unmarshal clock msgs s] tr show False by simp
  qed
  then obtain m where m: "h_metrics h = Some m" by blast
  from ConsumeClaim_marks [OF m tr refl]
  show "msg \<in> set msgs" "\<not> isl (Unmarshal (cm_Value msg))"
    "\<exists>m pre' d l. h_metrics h = Some m \<and>
         pre = pre' @ [Counter_Inc (MessagesConsumed m),
                       Histogram_Observe (ProcessingDuration m) d,
                       Gauge_Set (ConsumerLag m) l]"
    using m by auto
  from ConsumeClaim_mark_position [OF m tr] obtain earlier later ticket where
    pos: "msgs = earlier @ msg # later" "Unmarshal (cm_Value msg) = Inr ticket"
      "trace s @ pre =
         trace (snd (ConsumeClaim Unmarshal clock h earlier s)) @
         [Counter_Inc (MessagesConsumed m),
          Histogram_Observe (ProcessingDuration m)
            (Sub (clock (reads (snd (ConsumeClaim Unmarshal clock h earlier s)) + 1))
                 (clock (reads (snd (ConsumeClaim Unmarshal clock h earlier s))))),
          Gauge_Set (ConsumerLag m)
            (Sub (clock (reads (snd (ConsumeClaim Unmarshal clock h earlier s)) + 2))
                 (Timestamp ticket))]"
      "trace s @ pre @ [Session_MarkMessage msg md] =
         trace (snd (ConsumeClaim Unmarshal clock h (earlier @ [msg]) s))"
    by blast
  have before: "marked (trace s @ pre) = marked (trace s) @ filter ?good earlier"
    unfolding pos(3) by (simp add: marked_append ConsumeClaim_marked [OF m])
  have "marked (trace (snd (ConsumeClaim Unmarshal clock h msgs s))) =
          marked (trace s @ pre) @ msg # marked post"
    unfolding tr by (simp add: marked_append)
  moreover have "marked (trace (snd (ConsumeClaim Unmarshal clock h msgs s))) =
          (marked (trace s) @ filter ?good earlier) @ msg # filter ?good later"
    using pos(1,2) by (simp add: ConsumeClaim_marked [OF m])
  ultimately have after: "marked post = filter ?good later"
    using before by simp
  show "\<exists>m earlier later ticket.
         h_metrics h = Some m \<and> msgs = earlier @ msg # later \<and>
         Unmarshal (cm_Value msg) = Inr ticket \<and>
         trace s @ pre =
           trace (snd (ConsumeClaim Unmarshal clock h earlier s)) @
           [Counter_Inc (MessagesConsumed m),
            Histogram_Observe (ProcessingDuration m)
              (Sub (clock (reads (snd (ConsumeClaim Unmarshal clock h earlier s)) + 1))
                   (clock (reads (snd (ConsumeClaim Unmarshal clock h earlier s))))),
            Gauge_Set (ConsumerLag m)
              (Sub (clock (reads (snd (ConsumeClaim Unmarshal clock h earlier s)) + 2))
                   (Timestamp ticket))] \<and>
         trace s @ pre @ [Session_MarkMessage msg md] =
           trace (snd (ConsumeClaim Unmarshal clock h (earlier @ [msg]) s)) \<and>
         marked (trace s @ pre) = marked (trace s) @ filter ?good earlier \<and>
         marked post = filter ?good later"
    using m pos before after by blast
next
  assume tr: "snd (ConsumerHandler_ConsumeClaim claim tr) =
        tr @ preL @ Session_MarkMessage logged mdL # postL"
  from ConsumerHandler_marks [OF tr refl]
  show "logged \<in> set claim"
    "\<exists>pre'. preL = pre' @ [Log_Printf (cm_Topic logged) (cm_Partition logged) (cm_Offset logged)]"
    by auto
  from ConsumerHandler_mark_position [OF tr] obtain earlier later where
    pos: "claim = earlier @ logged # later"
      "tr @ preL =
         snd (ConsumerHandler_ConsumeClaim earlier tr) @
         [Log_Printf (cm_Topic logged) (cm_Partition logged) (cm_Offset logged)]"
      "tr @ preL @ [Session_MarkMessage logged mdL] =
         snd (ConsumerHandler_ConsumeClaim (earlier @ [logged]) tr)"
    by blast
  have before: "marked (tr @ preL) = marked tr @ earlier"
    unfolding pos(2) by (simp add: marked_append ConsumerHandler_marked)
  have "marked (snd (ConsumerHandler_ConsumeClaim claim tr)) =
          marked (tr @ preL) @ logged # marked postL"
    unfolding tr by (simp add: marked_append)
  moreover have "marked (snd (ConsumerHandler_ConsumeClaim claim tr)) =
          (marked tr @ earlier) @ logged # later"
    using pos(1) by (simp add: ConsumerHandler_marked)
  ultimately have after: "marked postL = later"
    using before by simp
  show "\<exists>earlier later.
         claim = earlier @ logged # later \<and>
         tr @ preL =
           snd (ConsumerHandler_ConsumeClaim earlier tr) @
           [Log_Printf (cm_Topic logged) (cm_Partition logged) (cm_Offset logged)] \<and>
         tr @ preL @ [Session_MarkMessage logged mdL] =
           snd (ConsumerHandler_ConsumeClaim (earlier @ [logged]) tr) \<and>
         marked (tr @ preL) = marked tr @ earlier \<and>
         marked postL = later"
    using pos before after by blast
qed

text \<open>
  At a claim of two records that decode, at offsets 7 and 8, for both handlers and the
  first mark of the trace: it is the mark of the record at offset 7, it follows the
  processing of that record, and the record at offset 8 is processed and marked after it.
\<close>

theorem mark_only_after_processing_witness:
  "trace (snd (ConsumeClaim exampleUnmarshal exampleClock exampleHandler
       [exampleMessage 7 ''{}'', exampleMessage 8 ''{}''] startState)) =
     trace startState @
     [Counter_Inc (MessagesConsumed (NewMetrics ''ticket_processor'')),
      Histogram_Observe (ProcessingDuration (NewMetrics ''ticket_processor'')) 1000000000,
      Gauge_Set (ConsumerLag (NewMetrics ''ticket_processor'')) 9223372036854775807] @
     Session_MarkMessage (exampleMessage 7 ''{}'') '''' #
     [Counter_Inc (MessagesConsumed (NewMetrics ''ticket_processor'')),
      Histogram_Observe (ProcessingDuration (NewMetrics ''ticket_processor'')) 1000000000,
      Gauge_Set (ConsumerLag (NewMetrics ''ticket_processor'')) 9223372036854775807,
      Session_MarkMessage (exampleMessage 8 ''{}'') '''']
   \<and> snd (ConsumerHandler_ConsumeClaim
       [exampleMessage 7 ''{}'', exampleMessage 8 ''{}''] []) =
     [] @
     [Log_Printf ''tickets'' 0 7] @
     Session_MarkMessage (exampleMessage 7 ''{}'') '''' #
     [Log_Printf ''tickets'' 0 8, Session_MarkMessage (exampleMessage 8 ''{}'') '''']
   \<and> exampleMessage 7 ''{}'' \<in> set [exampleMessage 7 ''{}'', exampleMessage 8 ''{}'']
   \<and> \<not> isl (exampleUnmarshal (cm_Value (exampleMessage 7 ''{}'')))
   \<and> (\<exists>earlier later.
         [exampleMessage 7 ''{}'', exampleMessage 8 ''{}''] =
            earlier @ exampleMessage 7 ''{}'' # later
         \<and> marked [Counter_Inc (MessagesConsumed (NewMetrics ''ticket_processor'')),
              Histogram_Observe (ProcessingDuration (NewMetrics ''ticket_processor''))
                1000000000,
              Gauge_Set (ConsumerLag (NewMetrics ''ticket_processor'')) 9223372036854775807,
              Session_MarkMessage (exampleMessage 8 ''{}'') ''''] =
            filter (\<lambda>x. \<not> isl (exampleUnmarshal (cm_Value x))) later)"
proof -
  have t1: "trace (snd (ConsumeClaim exampleUnmarshal exampleClock exampleHandler
       [exampleMessage 7 ''{}'', exampleMessage 8 ''{}''] startState)) =
     trace startState @
     [Counter_Inc (MessagesConsumed (NewMetrics ''ticket_processor'')),
      Histogram_Observe (ProcessingDuration (NewMetrics ''ticket_processor'')) 1000000000,
      Gauge_Set (ConsumerLag (NewMetrics ''ticket_processor'')) 9223372036854775807] @
     Session_MarkMessage (exampleMessage 7 ''{}'') '''' #
     [Counter_Inc (MessagesConsumed (NewMetrics ''ticket_processor'')),
      Histogram_Observe (ProcessingDuration (NewMetrics ''ticket_processor'')) 1000000000,
      Gauge_Set (ConsumerLag (NewMetrics ''ticket_processor'')) 9223372036854775807,
      Session_MarkMessage (exampleMessage 8 ''{}'') '''']"
    by (simp add: exampleUnmarshal_def exampleMessage_def exampleHandler_def NewHandler_def
        exampleClock_def startState_def Sub_def Let_def)
  have t2: "snd (ConsumerHandler_ConsumeClaim
       [exampleMessage 7 ''{}'', exampleMessage 8 ''{}''] []) =
     [] @
     [Log_Printf ''tickets'' 0 7] @
     Session_MarkMessage (exampleMessage 7 ''{}'') '''' #
     [Log_Printf ''tickets'' 0 8, Session_MarkMessage (exampleMessage 8 ''{}'') '''']"
    by (simp add: exampleMessage_def)
  from mark_only_after_processing [where Unmarshal = exampleUnmarshal and clock = exampleClock
      and h = exampleHandler and s = startState
      and msgs = "[exampleMessage 7 ''{}'', exampleMessage 8 ''{}'']"
      and claim = "[exampleMessage 7 ''{}'', exampleMessage 8 ''{}'']" and tr = "[]"
      and msg = "exampleMessage 7 ''{}''" and md = "''''"
      and post = "[Counter_Inc (MessagesConsumed (NewMetrics ''ticket_processor'')),
                   Histogram_Observe (ProcessingDuration (NewMetrics ''ticket_processor''))
                     1000000000,
                   Gauge_Set (ConsumerLag (NewMetrics ''ticket_processor''))
                     9223372036854775807,
                   Session_MarkMessage (exampleMessage 8 ''{}'') '''']"
      and logged = "exampleMessage 7 ''{}''" and mdL = "''''"
      and postL = "[Log_Printf ''tickets'' 0 8,
                    Session_MarkMessage (exampleMessage 8 ''{}'') '''']"
      and pre = "[Counter_Inc (MessagesConsumed (NewMetrics ''ticket_processor'')),
                  Histogram_Observe (ProcessingDuration (NewMetrics ''ticket_processor''))
                    1000000000,
                  Gauge_Set (ConsumerLag (NewMetrics ''ticket_processor''))
                    9223372036854775807]"
      and preL = "[Log_Printf ''tickets'' 0 7]"]
  show ?thesis using t1 t2 by blast
qed

text \<open>
  C5. A producer returned by \<open>NewProducer\<close> has no metrics, so for every ticket that is
  encoded \<open>SendTicket\<close> panics on the nil pointer when it reaches its counter, after the
  send and whatever the send returned, and no counter is updated.
\<close>

theorem SendTicket_panics_on_new_producer:
  "NewProducer NewSyncProducer brokers topic' = Inr p \<and> Marshal ticket = Inr data \<longrightarrow>
     metrics p = None
     \<and> fst (SendTicket Marshal SendMessage p ticket) = Panic NilPointerDereference
     \<and> snd (snd (SendTicket Marshal SendMessage p ticket)) = []"
  using NewProducer_metrics_nil SendTicket_nil_metrics by blast

text \<open>
  At the inputs of \<open>producer_test.go\<close>, with a cluster that takes the message: the
  ticket is appended to the log of its partition and \<open>SendTicket\<close> panics.
\<close>

theorem SendTicket_panics_on_new_producer_witness:
  "NewProducer connectingNewSyncProducer [''localhost:9092''] ''test-topic'' = Inr testProducer
   \<and> exampleMarshal testTicket = Inr (examplePayload testTicket)
   \<and> fst (SendTicket exampleMarshal Broker_SendMessage testProducer testTicket) =
       Panic NilPointerDereference
   \<and> snd (snd (SendTicket exampleMarshal Broker_SendMessage testProducer testTicket)) = []"
proof -
  have h1: "NewProducer connectingNewSyncProducer [''localhost:9092''] ''test-topic'' =
              Inr testProducer"
    by (simp add: NewProducer_def connectingNewSyncProducer_def testProducer_def)
  have h2: "exampleMarshal testTicket = Inr (examplePayload testTicket)"
    by (simp add: exampleMarshal_def)
  from SendTicket_panics_on_new_producer [where NewSyncProducer = connectingNewSyncProducer
      and brokers = "[''localhost:9092'']" and topic' = "''test-topic''" and p = testProducer
      and Marshal = exampleMarshal and ticket = testTicket
      and data = "examplePayload testTicket" and SendMessage = Broker_SendMessage]
  show ?thesis using h1 h2 by blast
qed

text \<open>
  C7. The constants are as claimed: \<open>NewProducer\<close> bounds the retries of the client at
  5, and \<open>CreateBackOff\<close> on \<open>NewRetryConfig\<close> gives a backoff from 100ms with multiplier
  2, at most 2s between tries and \<open>MaxRetries \<times> MaxInterval\<close> = 10s in all. Nothing
  calls \<open>CreateBackOff\<close>, and the pause between the retries of the client stays at the
  default \<open>Retry.Backoff\<close> of 100ms. The error of a failed send does not reach the
  caller of \<open>SendTicket\<close> for a producer made by \<open>NewProducer\<close>: at the inputs of
  \<open>producer_test.go\<close> and a send that fails, \<open>SendTicket\<close> panics instead of returning
  the error, and the error counter is not updated.
\<close>

theorem send_failure_not_surfaced:
  "Producer_Retry_Max producerConfig = 5
   \<and> Producer_Retry_Backoff producerConfig = 100 * Millisecond
   \<and> CreateBackOff NewRetryConfig =
       \<lparr>bo_InitialInterval = 100 * Millisecond, bo_RandomizationFactor = 1 / 2,
        bo_Multiplier = 2, bo_MaxInterval = 2 * Second, bo_MaxElapsedTime = 10 * Second\<rparr>
   \<and> bo_MaxElapsedTime (CreateBackOff NewRetryConfig) =
       MaxRetries NewRetryConfig * MaxInterval NewRetryConfig
   \<and> sint (bo_MaxElapsedTime (CreateBackOff NewRetryConfig)) = 10 * 1000000000
   \<and> NewProducer connectingNewSyncProducer [''localhost:9092''] ''test-topic'' = Inr testProducer
   \<and> failingSendMessage (producer testProducer)
        (ticketMessage testProducer testTicket (examplePayload testTicket)) =
       (Inl (BrokerError ''kafka: client has run out of available brokers to talk to''),
        producer testProducer)
   \<and> SendTicket exampleMarshal failingSendMessage testProducer testTicket =
       (Panic NilPointerDereference, testProducer, [])"
  by (simp add: producerConfig_def NewConfig_def CreateBackOff_def NewRetryConfig_def
      NewExponentialBackOff_def Second_def Millisecond_def SendTicket_def NewProducer_def
      connectingNewSyncProducer_def testProducer_def exampleMarshal_def failingSendMessage_def)

text \<open>
  For a producer that has metrics the error of the send is counted and returned, after
  a single call of \<open>SendMessage\<close>.
\<close>

lemma send_failure_returned_with_metrics:
  "SendTicket exampleMarshal failingSendMessage meteredProducer testTicket =
     (Return (Some (BrokerError ''kafka: client has run out of available brokers to talk to'')),
      meteredProducer,
      [Counter_Inc (ErrorsCount (NewMetrics ''ticket_processor''))])"
  by (simp add: SendTicket_def meteredProducer_def testProducer_def exampleMarshal_def
      failingSendMessage_def)

text \<open>The years of the two example times.\<close>

lemma Year_exampleTime: "Year exampleTime = 2026"
  by code_simp

lemma Year_farTime: "Year farTime = 10000"
  by code_simp

text \<open>
  C9, as the code has it. For every ticket whose \<open>Timestamp\<close> is an RFC 3339 time (a
  year from 0 to 9999 in its zone, a zone offset below 24 hours) \<open>json.Marshal\<close>
  succeeds and \<open>SendTicket\<close> goes on to the send: the client is left in the state the
  send of the ticket's message produced. For every other ticket \<open>json.Marshal\<close> fails
  and \<open>SendTicket\<close> returns its error without a send or a metric call.
\<close>

theorem marshal_succeeds_for_rfc3339_time:
  "(0 \<le> Year (Timestamp ticket) \<and> Year (Timestamp ticket) \<le> 9999
     \<and> \<bar>zoneOffset (Timestamp ticket)\<bar> < 86400 \<longrightarrow>
     json_Marshal encode ticket = Inr (encode ticket)
     \<and> SendTicket (json_Marshal encode) SendMessage p ticket =
         SendTicket (\<lambda>t. Inr (encode t)) SendMessage p ticket
     \<and> producer (fst (snd (SendTicket (json_Marshal encode) SendMessage p ticket))) =
         snd (SendMessage (producer p) (ticketMessage p ticket (encode ticket))))
   \<and> (\<not> (0 \<le> Year (Timestamp ticket) \<and> Year (Timestamp ticket) \<le> 9999
          \<and> \<bar>zoneOffset (Timestamp ticket)\<bar> < 86400) \<longrightarrow>
       (\<exists>msg. json_Marshal encode ticket = Inl (MarshalerError msg)
          \<and> SendTicket (json_Marshal encode) SendMessage p ticket =
              (Return (Some (MarshalerError msg)), p, [])))"
  by (auto simp: json_Marshal_def strictRFC3339_error_def SendTicket_def
      split: prod.splits sum.splits option.splits)

theorem marshal_succeeds_for_rfc3339_time_witness:
  "0 \<le> Year (Timestamp testTicket) \<and> Year (Timestamp testTicket) \<le> 9999
   \<and> \<bar>zoneOffset (Timestamp testTicket)\<bar> < 86400
   \<and> Year (Timestamp testTicket) = 2026
   \<and> json_Marshal examplePayload testTicket = Inr (examplePayload testTicket)
   \<and> producer (fst (snd (SendTicket (json_Marshal examplePayload) Broker_SendMessage
                            meteredProducer testTicket))) =
       snd (Broker_SendMessage (producer meteredProducer)
              (ticketMessage meteredProducer testTicket (examplePayload testTicket)))"
proof -
  have y: "Year (Timestamp testTicket) = 2026"
    by (simp add: testTicket_def orderTicket_def Year_exampleTime)
  have y0: "0 \<le> Year (Timestamp testTicket)" and y1: "Year (Timestamp testTicket) \<le> 9999"
    using y by simp_all
  have z: "\<bar>zoneOffset (Timestamp testTicket)\<bar> < 86400"
    by (simp add: testTicket_def orderTicket_def exampleTime_def)
  from marshal_succeeds_for_rfc3339_time [where ticket = testTicket
      and encode = examplePayload and SendMessage = Broker_SendMessage and p = meteredProducer]
  show ?thesis using y y0 y1 z by blast
qed

text \<open>
  C9 as stated fails: the ticket of \<open>producer_test.go\<close> with the \<open>Timestamp\<close>
  10000-01-01T00:00:00Z is a ticket, \<open>json.Marshal\<close> returns an error for it, and
  \<open>SendTicket\<close> returns that error at its first \<open>return err\<close>, without a send.
\<close>

theorem marshal_failure_counterexample:
  "Year (Timestamp farTicket) = 10000
   \<and> json_Marshal examplePayload farTicket =
       Inl (MarshalerError ''Time.MarshalJSON: year outside of range [0,9999]'')
   \<and> SendTicket (json_Marshal examplePayload) Broker_SendMessage meteredProducer farTicket =
       (Return (Some (MarshalerError ''Time.MarshalJSON: year outside of range [0,9999]'')),
        meteredProducer, [])"
  by (simp add: farTicket_def testTicket_def orderTicket_def Year_farTime
      json_Marshal_def strictRFC3339_error_def SendTicket_def)

text \<open>For any time that is not an RFC 3339 time the send is not reached.\<close>

lemma marshal_failure_returned:
  "strictRFC3339_error (Timestamp ticket) = Some msg \<Longrightarrow>
   SendTicket (json_Marshal encode) SendMessage p ticket =
     (Return (Some (MarshalerError (''Time.MarshalJSON: '' @ msg))), p, [])"
  by (simp add: json_Marshal_def SendTicket_def)

text \<open>
  C10. When a session has ended and the context is not cancelled, the loop calls
  \<open>Consume\<close> again; the \<open>Cleanup\<close> of the second session calls \<open>wg.Done()\<close> on a counter
  that the first session has already brought to zero, and the process panics. This
  holds for any claims of the two sessions, and whatever would follow.
\<close>

theorem second_session_cleanup_panics:
  "consumer_main ((Session claims, False) # (Session claims', cancelled) # calls) =
     Panic NegativeWaitGroupCounter"
  by (simp add: consumer_main_def WaitGroup_Add_def make_chan_def Setup_def close_chan_def
      Cleanup_def Let_def)

end
